theory Spec2Isabelle
  imports Main "HOL-Library.Word" "HOL-Library.AList" "HOL-Library.List_Lexorder" "HOL-Library.Char_ord"
begin

section \<open>CamWork: shallow embedding of the sorting and duplicate-search scripts\<close>

text \<open>
  The scripts \<^verbatim>\<open>model_sort_v2.3\<close>, \<^verbatim>\<open>date_sort_v1.2\<close>, \<^verbatim>\<open>raw_sort_v1.3\<close> and
  \<^verbatim>\<open>dup_search_v2.4\<close> are Python programs that walk a directory tree, read EXIF tags
  through \<^verbatim>\<open>exiftool\<close>, hash files with \<^verbatim>\<open>hashlib.sha256\<close> and move files with
  \<^verbatim>\<open>shutil.move\<close>. The embedding makes the file system an explicit value, threads the
  module-level accumulators (\<^verbatim>\<open>moved\<close>, \<^verbatim>\<open>duplicates\<close>, \<^verbatim>\<open>unmapped\<close>, the log) through
  every function as a record, and takes whatever the operating system or an external
  tool decides (EXIF tags, time stamps, permission failures) from an environment record.
\<close>

subsection \<open>Python values that the scripts use\<close>

datatype py_error =
    OverflowError
  | FileExistsError
  | FileNotFoundError
  | NotADirectoryError
  | PermissionError
  | ShutilError

type_synonym byte = "8 word"
type_synonym bytes = "byte list"
type_synonym path = "string list"

text \<open>\<^verbatim>\<open>str(n)\<close> for a non-negative integer: its decimal digits.\<close>

definition digit_char :: "nat \<Rightarrow> char" where
  "digit_char n = ''0123456789'' ! (n mod 10)"

fun str_nat :: "nat \<Rightarrow> string" where
  "str_nat n = (if n < 10 then [digit_char n] else str_nat (n div 10) @ [digit_char n])"

text \<open>\<^verbatim>\<open>f"{n:02d}"\<close>: decimal digits, padded with zeros on the left to width two.\<close>

definition fmt_02d :: "nat \<Rightarrow> string" where
  "fmt_02d n = (if n < 10 then CHR ''0'' # str_nat n else str_nat n)"

text \<open>\<^verbatim>\<open>str.lower()\<close> on the ASCII letters (file extensions are ASCII).\<close>

definition lower_char :: "char \<Rightarrow> char" where
  "lower_char c =
     (case map_of (zip ''ABCDEFGHIJKLMNOPQRSTUVWXYZ'' ''abcdefghijklmnopqrstuvwxyz'') c of
        Some l \<Rightarrow> l
      | None \<Rightarrow> c)"

definition lower :: "string \<Rightarrow> string" where
  "lower s = map lower_char s"

text \<open>
  \<^verbatim>\<open>os.path.splitext(name)[1]\<close> for a bare file name: the text from the last dot on,
  unless everything before that dot is dots (or there is no dot), when it is empty.
\<close>

definition splitext_ext :: "string \<Rightarrow> string" where
  "splitext_ext name =
     (let n = length (takeWhile (\<lambda>c. c \<noteq> CHR ''.'') (rev name)) in
      if n = length name then []
      else if filter (\<lambda>c. c \<noteq> CHR ''.'') (take (length name - n - 1) name) = [] then []
      else drop (length name - n - 1) name)"

subsection \<open>\<^verbatim>\<open>datetime\<close> and the month folder (date\_sort v1.2, lines 122--128)\<close>

record datetime =
  year :: nat
  month :: nat
  day :: nat
  hour :: nat
  minute :: nat
  second :: nat

definition is_leap :: "nat \<Rightarrow> bool" where
  "is_leap y = (y mod 4 = 0 \<and> (y mod 100 \<noteq> 0 \<or> y mod 400 = 0))"

definition days_in_month :: "nat \<Rightarrow> nat \<Rightarrow> nat" where
  "days_in_month y m =
     (if m = 2 then (if is_leap y then 29 else 28)
      else if m = 4 \<or> m = 6 \<or> m = 9 \<or> m = 11 then 30 else 31)"

text \<open>The values a Python \<^verbatim>\<open>datetime\<close> can hold: years 1 to 9999 and a real calendar day.\<close>

definition valid_datetime :: "datetime \<Rightarrow> bool" where
  "valid_datetime d =
     (1 \<le> year d \<and> year d \<le> 9999 \<and> 1 \<le> month d \<and> month d \<le> 12 \<and>
      1 \<le> day d \<and> day d \<le> days_in_month (year d) (month d) \<and>
      hour d < 24 \<and> minute d < 60 \<and> second d < 60)"

text \<open>
  \<^verbatim>\<open>fecha - timedelta(days=1)\<close>: the same time on the day before. Python raises
  \<^verbatim>\<open>OverflowError\<close> when the result would fall before year 1.
\<close>

definition minus_one_day :: "datetime \<Rightarrow> py_error + datetime" where
  "minus_one_day d =
     (if 1 < day d then Inr (d\<lparr>day := day d - 1\<rparr>)
      else if 1 < month d then
        Inr (d\<lparr>month := month d - 1, day := days_in_month (year d) (month d - 1)\<rparr>)
      else if 1 < year d then Inr (d\<lparr>year := year d - 1, month := 12, day := 31\<rparr>)
      else Inl OverflowError)"

definition ajustar_mes_por_horario_especial :: "datetime \<Rightarrow> py_error + datetime" where
  "ajustar_mes_por_horario_especial fecha =
     (if day fecha = 1 \<and> hour fecha < 8 then minus_one_day fecha else Inr fecha)"

definition generar_nombre_carpeta :: "datetime \<Rightarrow> string" where
  "generar_nombre_carpeta fecha = str_nat (year fecha) @ ''.'' @ fmt_02d (month fecha)"

text \<open>
  The two calls as \<^verbatim>\<open>organizar_fotos_por_fecha\<close> chains them (lines 194--195): the name
  of the month folder of a capture date, or the exception that the adjustment raised.
\<close>

definition carpeta_destino :: "datetime \<Rightarrow> py_error + string" where
  "carpeta_destino fecha =
     (case ajustar_mes_por_horario_especial fecha of
        Inl e \<Rightarrow> Inl e
      | Inr f \<Rightarrow> Inr (generar_nombre_carpeta f))"

text \<open>
  What a name of the form \<^verbatim>\<open>YYYY.MM\<close> says, read back independently of the code that
  prints it: the text before the first dot and the text after it, each read as a decimal
  number. These functions are not part of the scripts.
\<close>

definition digit_of :: "char \<Rightarrow> nat option" where
  "digit_of c = map_of (zip ''0123456789'' [0, 1, 2, 3, 4, 5, 6, 7, 8, 9]) c"

definition read_decimal :: "string \<Rightarrow> nat option" where
  "read_decimal cs =
     (if cs = [] then None
      else foldl (\<lambda>acc c. case acc of
                    None \<Rightarrow> None
                  | Some a \<Rightarrow> (case digit_of c of None \<Rightarrow> None | Some d \<Rightarrow> Some (10 * a + d)))
             (Some 0) cs)"

definition folder_year_text :: "string \<Rightarrow> string" where
  "folder_year_text name = takeWhile (\<lambda>c. c \<noteq> CHR ''.'') name"

definition folder_month_text :: "string \<Rightarrow> string" where
  "folder_month_text name = drop 1 (dropWhile (\<lambda>c. c \<noteq> CHR ''.'') name)"

subsection \<open>What the capture date lookup reads (date\_sort v1.2)\<close>

text \<open>
  What \<^verbatim>\<open>subprocess.run(["exiftool", "-j", filepath])\<close> followed by \<^verbatim>\<open>json.loads\<close> can
  give: the tool is missing, it exits with a non-zero code, its output is not JSON or is
  not a non-empty list, or the first element of the list is a dictionary of tags.
\<close>

datatype exiftool_output =
    ExiftoolMissing
  | ExiftoolFailed
  | ExiftoolBadJson
  | ExiftoolNoData
  | ExiftoolTags "(string \<times> string) list"

text \<open>
  What the operating system decides about a mutation: whether creating a directory is
  refused, and whether moving a file fails. A failed \<^verbatim>\<open>shutil.move\<close> never removes the
  source, but its copy fallback may already have written (part of) the destination:
  \<open>Some None\<close> is a failure that wrote nothing, \<open>Some (Some bs)\<close> one that left \<open>bs\<close>
  at the destination.
\<close>

record os_env =
  mkdir_denied :: "path \<Rightarrow> bool"
  move_fault :: "path \<Rightarrow> bytes option option"

record date_env = os_env +
  exiftool_j :: "path \<Rightarrow> exiftool_output"
  strptime :: "string \<Rightarrow> datetime option"
  stat_ctime :: "path \<Rightarrow> datetime option"
  stat_mtime :: "path \<Rightarrow> datetime option"
  now :: datetime

text \<open>\<^verbatim>\<open>metadata.get(tag)\<close> followed by a truth test: an absent or empty tag counts as absent.\<close>

definition get_tag :: "(string \<times> string) list \<Rightarrow> string \<Rightarrow> string option" where
  "get_tag metadata tag =
     (case map_of metadata tag of
        None \<Rightarrow> None
      | Some v \<Rightarrow> if v = [] then None else Some v)"

text \<open>\<^verbatim>\<open>dt_str.split(".")[0]\<close>: the text before the first dot.\<close>

definition before_dot :: "string \<Rightarrow> string" where
  "before_dot s = takeWhile (\<lambda>c. c \<noteq> CHR ''.'') s"

subsection \<open>The file system\<close>

text \<open>
  A path is the list of its components (\<^verbatim>\<open>os.path.join(d, name)\<close> appends one). The file
  system is an association list from paths to nodes, in the order in which the operating
  system enumerates them, so \<^verbatim>\<open>os.listdir\<close> returns names in an order that the scripts
  do not control. A file carries its bytes and whether it can be opened for reading.
\<close>

datatype node = File bytes bool | Dir

type_synonym filesystem = "(path \<times> node) list"

definition lookup :: "filesystem \<Rightarrow> path \<Rightarrow> node option" where
  "lookup fsys p = map_of fsys p"

definition os_path_join :: "path \<Rightarrow> string \<Rightarrow> path" where
  "os_path_join d name = d @ [name]"

definition os_path_exists :: "filesystem \<Rightarrow> path \<Rightarrow> bool" where
  "os_path_exists fsys p = (lookup fsys p \<noteq> None)"

definition os_path_isdir :: "filesystem \<Rightarrow> path \<Rightarrow> bool" where
  "os_path_isdir fsys p = (lookup fsys p = Some Dir)"

definition os_path_isfile :: "filesystem \<Rightarrow> path \<Rightarrow> bool" where
  "os_path_isfile fsys p = (case lookup fsys p of Some (File c r) \<Rightarrow> True | _ \<Rightarrow> False)"

definition os_listdir :: "filesystem \<Rightarrow> path \<Rightarrow> string list" where
  "os_listdir fsys d = map last (filter (\<lambda>p. p \<noteq> [] \<and> butlast p = d) (map fst fsys))"

definition is_under :: "path \<Rightarrow> path \<Rightarrow> bool" where
  "is_under d p = (length d < length p \<and> take (length d) p = d)"

text \<open>
  The files that \<^verbatim>\<open>os.walk(top)\<close> yields, each joined with its directory as
  \<^verbatim>\<open>is_duplicate\<close> joins them: every regular file below the top directory, at any depth.
\<close>

definition os_walk_files :: "filesystem \<Rightarrow> path \<Rightarrow> path list" where
  "os_walk_files fsys d = filter (\<lambda>p. is_under d p \<and> os_path_isfile fsys p) (map fst fsys)"

definition fs_write :: "path \<Rightarrow> node \<Rightarrow> filesystem \<Rightarrow> filesystem" where
  "fs_write p n fsys = AList.update p n fsys"

definition fs_remove :: "path \<Rightarrow> filesystem \<Rightarrow> filesystem" where
  "fs_remove p fsys = AList.delete p fsys"

text \<open>
  \<^verbatim>\<open>os.makedirs(dest, exist_ok=True)\<close> (model\_sort, line 298): nothing to do when the
  directory is there, \<^verbatim>\<open>FileExistsError\<close> when the path is a regular file, and the
  operating system may refuse the creation.
\<close>

definition os_makedirs_exist_ok :: "'a os_env_scheme \<Rightarrow> path \<Rightarrow> filesystem \<Rightarrow> py_error + filesystem" where
  "os_makedirs_exist_ok env p fsys =
     (case lookup fsys p of
        Some Dir \<Rightarrow> Inr fsys
      | Some (File c r) \<Rightarrow> Inl FileExistsError
      | None \<Rightarrow> if mkdir_denied env p then Inl PermissionError else Inr (fs_write p Dir fsys))"

text \<open>\<^verbatim>\<open>os.mkdir(path)\<close>: the path must be new and its parent a directory.\<close>

definition os_mkdir :: "'a os_env_scheme \<Rightarrow> path \<Rightarrow> filesystem \<Rightarrow> py_error + filesystem" where
  "os_mkdir env p fsys =
     (if os_path_exists fsys p then Inl FileExistsError
      else if \<not> os_path_isdir fsys (butlast p) then Inl FileNotFoundError
      else if mkdir_denied env p then Inl PermissionError
      else Inr (fs_write p Dir fsys))"

text \<open>
  \<^verbatim>\<open>shutil.move(src, dst)\<close> for a regular file \<open>src\<close>. When \<open>dst\<close> is a directory the file
  goes inside it under its own name, and \<^verbatim>\<open>shutil.Error\<close> is raised when that name is
  taken; otherwise \<open>dst\<close> itself is the target and an existing regular file there is
  replaced. The result is the exception, if any, and the file system afterwards.
\<close>

definition real_dst :: "filesystem \<Rightarrow> path \<Rightarrow> path \<Rightarrow> path" where
  "real_dst fsys src dst = (if os_path_isdir fsys dst then dst @ [last src] else dst)"

definition shutil_move ::
  "'a os_env_scheme \<Rightarrow> path \<Rightarrow> path \<Rightarrow> filesystem \<Rightarrow> py_error option \<times> filesystem" where
  "shutil_move env src dst fsys =
     (case lookup fsys src of
        Some (File c r) \<Rightarrow>
          (let target = real_dst fsys src dst in
           if os_path_isdir fsys dst \<and> os_path_exists fsys target then (Some ShutilError, fsys)
           else if \<not> os_path_isdir fsys (butlast target) then (Some NotADirectoryError, fsys)
           else
             (case move_fault env src of
                None \<Rightarrow> (None, fs_write target (File c r) (fs_remove src fsys))
              | Some None \<Rightarrow> (Some PermissionError, fsys)
              | Some (Some bs) \<Rightarrow> (Some PermissionError, fs_write target (File bs True) fsys)))
      | _ \<Rightarrow> (Some FileNotFoundError, fsys))"

subsection \<open>Fingerprint: \<^verbatim>\<open>sha256_of_file\<close> (model\_sort lines 125--138, dup\_search lines 79--92)\<close>

text \<open>
  \<^verbatim>\<open>hashlib.sha256\<close> is a library function: the embedding takes it as a parameter \<open>H\<close>
  from byte strings to 256-bit digests (\<^verbatim>\<open>hexdigest()\<close> prints the 256 bits as 64
  hexadecimal characters). A hash object is the bytes it has been fed:
  \<^verbatim>\<open>update\<close> appends and \<^verbatim>\<open>hexdigest\<close> applies \<open>H\<close>.
\<close>

type_synonym digest = "256 word"

definition hashlib_update :: "bytes \<Rightarrow> bytes \<Rightarrow> bytes" where
  "hashlib_update h chunk = h @ chunk"

definition hexdigest :: "(bytes \<Rightarrow> digest) \<Rightarrow> bytes \<Rightarrow> digest" where
  "hexdigest H h = H h"

text \<open>
  \<^verbatim>\<open>iter(lambda: f.read(chunk_size), b"")\<close>: successive reads of at most \<open>chunk_size\<close>
  bytes, up to the first empty read.
\<close>

function read_chunks :: "nat \<Rightarrow> bytes \<Rightarrow> bytes list" where
  "read_chunks chunk_size content =
     (if chunk_size = 0 \<or> content = [] then []
      else take chunk_size content # read_chunks chunk_size (drop chunk_size content))"
  by pat_completeness auto
termination
  by (relation "measure (\<lambda>(chunk_size, content). length content)") auto

declare read_chunks.simps [simp del]

definition fingerprint :: "(bytes \<Rightarrow> digest) \<Rightarrow> nat \<Rightarrow> bytes \<Rightarrow> digest" where
  "fingerprint H chunk_size content =
     hexdigest H (foldl hashlib_update [] (read_chunks chunk_size content))"

text \<open>
  \<^verbatim>\<open>sha256_of_file(path, chunk_size)\<close>: \<open>None\<close> when opening or reading raises (no such
  file, a directory, or an unreadable file), the digest otherwise.
\<close>

definition sha256_of_file :: "(bytes \<Rightarrow> digest) \<Rightarrow> filesystem \<Rightarrow> path \<Rightarrow> nat \<Rightarrow> digest option" where
  "sha256_of_file H fsys p chunk_size =
     (case lookup fsys p of
        Some (File content True) \<Rightarrow> Some (fingerprint H chunk_size content)
      | _ \<Rightarrow> None)"

definition default_chunk_size :: nat where
  "default_chunk_size = 8192"

subsection \<open>Accumulators and the log\<close>

text \<open>
  Every \<^verbatim>\<open>logger\<close> call of the scripts is an entry of the log: its level and which
  message it is, with the values the message prints. The module-level lists and
  dictionaries of a script are the fields of \<open>run_state\<close>, next to the file system;
  \<open>hashed\<close> records each call of \<^verbatim>\<open>sha256_of_file\<close> and \<open>raised\<close> an exception that
  nothing caught, which ends the loops.
\<close>

datatype log_level = INFO | WARNING | ERROR | CRITICAL

datatype log_msg =
    RootMissing
  | Omite string
  | NoExifModel path
  | SinTagModel string
  | ModeloNoMapeado string string
  | HashError path
  | HashImposible path
  | Duplicado path
  | Movido string path
  | ErrorMoviendo string py_error
  | Procesando path
  | CarpetaCreada path
  | ErrorCrearCarpeta path py_error
  | DuplicadoDetectado path path
  | MovidaFoto string path
  | PermisoDenegado string
  | ErrorAlMover string path
  | DuplicadoGrupo string string digest
  | DuplicadoRaw path
  | MovidoRaw string path
  | ExiftoolFallo path
  | FormatoFechaInesperado path string
  | ExiftoolNoEncontrado
  | ErrorExiftool path
  | SinFechaCreacion path
  | SinFechaModificacion path

record folder_stats =
  created :: bool
  photos_count :: nat
  ext_count :: "(string \<times> nat) list"
  bytes_moved :: nat

record run_state =
  disk :: filesystem
  unmapped :: "path list"
  duplicates :: "path list"
  moved :: "path list"
  scanned_cameras :: "string list"
  processed_count :: nat
  folders_report :: "(path \<times> folder_stats) list"
  logged :: "(log_level \<times> log_msg) list"
  hashed :: "path list"
  raised :: "py_error option"

definition initial_state :: "filesystem \<Rightarrow> run_state" where
  "initial_state fsys =
     \<lparr>disk = fsys, unmapped = [], duplicates = [], moved = [], scanned_cameras = [],
      processed_count = 0, folders_report = [], logged = [], hashed = [], raised = None\<rparr>"

definition log_add :: "log_level \<Rightarrow> log_msg \<Rightarrow> run_state \<Rightarrow> run_state" where
  "log_add lvl msg s = s\<lparr>logged := logged s @ [(lvl, msg)]\<rparr>"

text \<open>\<^verbatim>\<open>sha256_of_file(path)\<close> with its effects: the call is recorded, a failure is logged.\<close>

definition sha256_of_file_logged ::
  "(bytes \<Rightarrow> digest) \<Rightarrow> path \<Rightarrow> run_state \<Rightarrow> digest option \<times> run_state" where
  "sha256_of_file_logged H p s =
     (let h = sha256_of_file H (disk s) p default_chunk_size;
          s1 = s\<lparr>hashed := hashed s @ [p]\<rparr>
      in (h, if h = None then log_add ERROR (HashError p) s1 else s1))"

subsection \<open>model\_sort v2.3: \<^verbatim>\<open>classify_images\<close>\<close>

record model_env = os_env +
  sha256 :: "bytes \<Rightarrow> digest"
  exif_model :: "path \<Rightarrow> string option"

definition CAMERAS_DIR :: path where
  "CAMERAS_DIR = [''CAMERAS'']"

definition PHOTO_EXTENSIONS :: "string list" where
  "PHOTO_EXTENSIONS = [''.arw'', ''.cr2'', ''.cr3'', ''.jpg'', ''.mov'', ''.mp4'', ''.mts'']"

definition MODEL_TO_FOLDER :: "(string \<times> string) list" where
  "MODEL_TO_FOLDER =
     [(''Canon EOS 650D'', ''Canon EOS 650D''),
      (''Canon EOS M50m2'', ''Canon EOS M50m2''),
      (''Canon PowerShot G9 X Mark II'', ''Canon Powershot G9 X Mark II''),
      (''Canon PowerShot SX230 HS'', ''Canon PowerShot SX230 HS''),
      (''Canon PowerShot SX610 HS'', ''Canon PowerShot SX610 HS''),
      (''DMC-TZ57'', ''Panasonic DCM-TZ57''),
      (''DV300 / DV300F / DV305F'', ''Samsung DV300F''),
      (''Full HD Camcorder'', ''Samsung HMX-H300''),
      (''HMX-H300'', ''Samsung HMX-H300''),
      (''HERO7 White'', ''Gopro Hero7 White''),
      (''HERO10 Black'', ''Gopro Hero10 Black''),
      (''HERO11 Black'', ''Gopro Hero11 Black''),
      (''ILCE-6000'', ''Sony ILCE-6000''),
      (''WB30F'', ''Samsung WB30F''),
      (''WB30F/WB31F/WB32F'', ''Samsung WB30F'')]"

text \<open>\<^verbatim>\<open>re.sub(r'[<>:"/\\|?*]', '_', name)\<close>.\<close>

definition invalid_folder_chars :: "char list" where
  "invalid_folder_chars =
     [CHR ''<'', CHR ''>'', CHR '':'', CHR 0x22, CHR ''/'', CHR 0x5C, CHR ''|'', CHR ''?'', CHR ''*'']"

definition sanitize_folder_name :: "string \<Rightarrow> string" where
  "sanitize_folder_name name =
     map (\<lambda>c. if c \<in> set invalid_folder_chars then CHR ''_'' else c) name"

text \<open>
  \<^verbatim>\<open>get_camera_model\<close>: the EXIF tag \<^verbatim>\<open>Model\<close> as \<^verbatim>\<open>exiftool\<close> prints it, or \<open>None\<close>
  (with an error in the log) when the tag is missing or the call fails.
\<close>

definition get_camera_model ::
  "'a model_env_scheme \<Rightarrow> path \<Rightarrow> run_state \<Rightarrow> string option \<times> run_state" where
  "get_camera_model env filepath s =
     (case exif_model env filepath of
        Some model \<Rightarrow> (Some model, s)
      | None \<Rightarrow> (None, log_add ERROR (NoExifModel filepath) s))"

text \<open>The loop of \<^verbatim>\<open>is_duplicate\<close> over the files of the destination (lines 152--157).\<close>

fun scan_dest :: "(bytes \<Rightarrow> digest) \<Rightarrow> digest \<Rightarrow> path list \<Rightarrow> run_state \<Rightarrow> bool \<times> run_state" where
  "scan_dest H src_hash [] s = (False, s)"
| "scan_dest H src_hash (existing # rest) s =
     (case sha256_of_file_logged H existing s of
        (h, s1) \<Rightarrow> if h = Some src_hash then (True, s1) else scan_dest H src_hash rest s1)"

definition is_duplicate ::
  "'a model_env_scheme \<Rightarrow> path \<Rightarrow> path \<Rightarrow> run_state \<Rightarrow> bool \<times> run_state" where
  "is_duplicate env dest_folder src_path s =
     (case sha256_of_file_logged (sha256 env) src_path s of
        (None, s1) \<Rightarrow>
          (True, (log_add ERROR (HashImposible src_path) s1)\<lparr>unmapped := unmapped s1 @ [src_path]\<rparr>)
      | (Some src_hash, s1) \<Rightarrow>
          scan_dest (sha256 env) src_hash (os_walk_files (disk s1) dest_folder) s1)"

text \<open>Lines 296--313: create the destination, test for a duplicate, move.\<close>

definition relocate :: "'a model_env_scheme \<Rightarrow> string \<Rightarrow> string \<Rightarrow> run_state \<Rightarrow> run_state" where
  "relocate env item folder s =
     (let src = os_path_join CAMERAS_DIR item;
          s1 = s\<lparr>scanned_cameras := List.insert folder (scanned_cameras s)\<rparr>;
          dest = os_path_join CAMERAS_DIR (sanitize_folder_name folder)
      in case os_makedirs_exist_ok env dest (disk s1) of
           Inl e \<Rightarrow> s1\<lparr>raised := Some e\<rparr>
         | Inr fsys \<Rightarrow>
             (case is_duplicate env dest src (s1\<lparr>disk := fsys\<rparr>) of
                (True, s2) \<Rightarrow> (log_add WARNING (Duplicado src) s2)\<lparr>duplicates := duplicates s2 @ [src]\<rparr>
              | (False, s2) \<Rightarrow>
                  (case shutil_move env src (os_path_join dest item) (disk s2) of
                     (None, fsys') \<Rightarrow>
                       log_add INFO (Movido item dest) (s2\<lparr>disk := fsys', moved := moved s2 @ [src]\<rparr>)
                   | (Some e, fsys') \<Rightarrow>
                       (log_add ERROR (ErrorMoviendo item e) (s2\<lparr>disk := fsys'\<rparr>))
                         \<lparr>duplicates := duplicates s2 @ [src]\<rparr>)))"

text \<open>The body of the \<^verbatim>\<open>for item in os.listdir(CAMERAS_DIR)\<close> loop (lines 271--313).\<close>

definition classify_item :: "'a model_env_scheme \<Rightarrow> string \<Rightarrow> run_state \<Rightarrow> run_state" where
  "classify_item env item s =
     (let src = os_path_join CAMERAS_DIR item in
      if \<not> os_path_isfile (disk s) src then s
      else if lower (splitext_ext item) \<notin> set PHOTO_EXTENSIONS then log_add INFO (Omite item) s
      else
        (case get_camera_model env src (s\<lparr>processed_count := processed_count s + 1\<rparr>) of
           (None, s1) \<Rightarrow> (log_add ERROR (SinTagModel item) s1)\<lparr>unmapped := unmapped s1 @ [src]\<rparr>
         | (Some model, s1) \<Rightarrow>
             (case map_of MODEL_TO_FOLDER model of
                None \<Rightarrow> (log_add ERROR (ModeloNoMapeado model item) s1)\<lparr>unmapped := unmapped s1 @ [src]\<rparr>
              | Some folder \<Rightarrow>
                  if folder = [] then
                    (log_add ERROR (ModeloNoMapeado model item) s1)\<lparr>unmapped := unmapped s1 @ [src]\<rparr>
                  else relocate env item folder s1)))"

fun classify_loop :: "'a model_env_scheme \<Rightarrow> string list \<Rightarrow> run_state \<Rightarrow> run_state" where
  "classify_loop env [] s = s"
| "classify_loop env (item # rest) s =
     (let s1 = classify_item env item s in
      if raised s1 \<noteq> None then s1 else classify_loop env rest s1)"

text \<open>
  \<^verbatim>\<open>classify_images()\<close> in a fresh process: the lists start empty. The summary lines and
  the PDF at the end only print the three lists and are left out.
\<close>

definition classify_images :: "'a model_env_scheme \<Rightarrow> filesystem \<Rightarrow> run_state" where
  "classify_images env fsys =
     (if \<not> os_path_isdir fsys CAMERAS_DIR then log_add CRITICAL RootMissing (initial_state fsys)
      else classify_loop env (os_listdir fsys CAMERAS_DIR) (initial_state fsys))"

subsection \<open>Capture date lookup: \<^verbatim>\<open>obtener_fecha_captura\<close> (date\_sort v1.2, lines 64--120)\<close>

text \<open>
  The lookup changes nothing but the log. Each of the two functions returns its result
  together with the records it logs, in the order of the calls; the loop appends them to
  the log of the run. \<^verbatim>\<open>leer_fecha_con_exiftool\<close> warns when \<^verbatim>\<open>exiftool\<close> exits with a
  non-zero code (line 72), when the date does not parse (line 89) and when anything else
  raises (line 96, here: output that is not JSON); it logs an error when the tool is
  missing (line 93); an empty result and absent tags are silent.
\<close>

definition leer_fecha_con_exiftool ::
  "('a date_env_scheme) \<Rightarrow> path \<Rightarrow> datetime option \<times> (log_level \<times> log_msg) list" where
  "leer_fecha_con_exiftool env filepath =
     (case exiftool_j env filepath of
        ExiftoolMissing \<Rightarrow> (None, [(ERROR, ExiftoolNoEncontrado)])
      | ExiftoolFailed \<Rightarrow> (None, [(WARNING, ExiftoolFallo filepath)])
      | ExiftoolBadJson \<Rightarrow> (None, [(WARNING, ErrorExiftool filepath)])
      | ExiftoolNoData \<Rightarrow> (None, [])
      | ExiftoolTags metadata \<Rightarrow>
          (let dt_str =
                 (case get_tag metadata ''DateTimeOriginal'' of
                    Some v \<Rightarrow> Some v
                  | None \<Rightarrow>
                      (case get_tag metadata ''CreateDate'' of
                         Some v \<Rightarrow> Some v
                       | None \<Rightarrow> get_tag metadata ''SubSecDateTimeOriginal''))
           in case dt_str of
                None \<Rightarrow> (None, [])
              | Some v \<Rightarrow>
                  (case strptime env (before_dot v) of
                     Some fecha \<Rightarrow> (Some fecha, [])
                   | None \<Rightarrow> (None, [(WARNING, FormatoFechaInesperado filepath (before_dot v))]))))"

text \<open>
  Lines 100--120: the EXIF date, else the creation time, else the modification time,
  else the current time; a failed \<^verbatim>\<open>os.stat\<close> is logged (lines 111 and 118).
\<close>

definition obtener_fecha_captura ::
  "('a date_env_scheme) \<Rightarrow> path \<Rightarrow> datetime \<times> (log_level \<times> log_msg) list" where
  "obtener_fecha_captura env filepath =
     (case leer_fecha_con_exiftool env filepath of
        (Some fecha, records) \<Rightarrow> (fecha, records)
      | (None, records) \<Rightarrow>
          (case stat_ctime env filepath of
             Some creation_time \<Rightarrow> (creation_time, records)
           | None \<Rightarrow>
               (case stat_mtime env filepath of
                  Some modification_time \<Rightarrow>
                    (modification_time, records @ [(WARNING, SinFechaCreacion filepath)])
                | None \<Rightarrow>
                    (now env, records @ [(WARNING, SinFechaCreacion filepath),
                       (ERROR, SinFechaModificacion filepath)]))))"

subsection \<open>date\_sort v1.2: \<^verbatim>\<open>organizar_fotos_por_fecha\<close>\<close>

definition CAMARAS_DIR :: path where
  "CAMARAS_DIR = [''CAMARAS'']"

definition PHOTO_EXTENSIONS_date :: "string list" where
  "PHOTO_EXTENSIONS_date =
     [''.jpg'', ''.jpeg'', ''.png'', ''.cr2'', ''.arw'', ''.nef'', ''.raf'', ''.heic'']"

text \<open>Lines 219--230: the entry of the destination folder in \<^verbatim>\<open>folders_report\<close>.\<close>

definition bump_ext :: "string \<Rightarrow> (string \<times> nat) list \<Rightarrow> (string \<times> nat) list" where
  "bump_ext ext counts =
     AList.update ext (case map_of counts ext of None \<Rightarrow> 1 | Some n \<Rightarrow> n + 1) counts"

definition report_move :: "path \<Rightarrow> string \<Rightarrow> nat \<Rightarrow> (path \<times> folder_stats) list \<Rightarrow> (path \<times> folder_stats) list" where
  "report_move folder_key ext size_bytes report =
     (let old = (case map_of report folder_key of
                   None \<Rightarrow> \<lparr>created = True, photos_count = 0, ext_count = [], bytes_moved = 0\<rparr>
                 | Some st \<Rightarrow> st)
      in AList.update folder_key
           (old\<lparr>photos_count := photos_count old + 1,
                bytes_moved := bytes_moved old + size_bytes,
                ext_count := bump_ext ext (ext_count old)\<rparr>) report)"

text \<open>\<^verbatim>\<open>os.path.getsize\<close>: raises for a path that is not there.\<close>

definition os_path_getsize :: "filesystem \<Rightarrow> path \<Rightarrow> py_error + nat" where
  "os_path_getsize fsys p =
     (case lookup fsys p of
        Some (File c r) \<Rightarrow> Inr (length c)
      | Some Dir \<Rightarrow> Inr 0
      | None \<Rightarrow> Inl FileNotFoundError)"

text \<open>
  Lines 198--204: create the month folder when the path does not exist. The result says
  whether the loop body goes on (\<open>False\<close> is the \<^verbatim>\<open>continue\<close> after a failed \<^verbatim>\<open>os.mkdir\<close>).
\<close>

definition ensure_destino :: "'a os_env_scheme \<Rightarrow> path \<Rightarrow> run_state \<Rightarrow> bool \<times> run_state" where
  "ensure_destino env destino_path s =
     (if os_path_exists (disk s) destino_path then (True, s)
      else
        (case os_mkdir env destino_path (disk s) of
           Inr fsys \<Rightarrow> (True, log_add INFO (CarpetaCreada destino_path) (s\<lparr>disk := fsys\<rparr>))
         | Inl e \<Rightarrow> (False, log_add ERROR (ErrorCrearCarpeta destino_path e) s)))"

text \<open>Lines 214--235: the \<^verbatim>\<open>try\<close> block around the move, with its two handlers.\<close>

definition mover_foto ::
  "'a os_env_scheme \<Rightarrow> string \<Rightarrow> path \<Rightarrow> path \<Rightarrow> string \<Rightarrow> run_state \<Rightarrow> run_state" where
  "mover_foto env item camera_path destino_path ext s =
     (let item_path = os_path_join camera_path item;
          nuevo_path = os_path_join destino_path item
      in case os_path_getsize (disk s) item_path of
           Inl e \<Rightarrow> log_add ERROR (ErrorAlMover item destino_path) s
         | Inr size_bytes \<Rightarrow>
             (case shutil_move env item_path nuevo_path (disk s) of
                (None, fsys) \<Rightarrow>
                  (log_add INFO (MovidaFoto item destino_path) (s\<lparr>disk := fsys\<rparr>))
                    \<lparr>folders_report := report_move destino_path ext size_bytes (folders_report s)\<rparr>
              | (Some PermissionError, fsys) \<Rightarrow>
                  log_add ERROR (PermisoDenegado item) (s\<lparr>disk := fsys\<rparr>)
              | (Some e, fsys) \<Rightarrow>
                  log_add ERROR (ErrorAlMover item destino_path) (s\<lparr>disk := fsys\<rparr>)))"

text \<open>The body of the \<^verbatim>\<open>for item in os.listdir(camera_path)\<close> loop (lines 183--235).\<close>

definition organizar_item :: "'a date_env_scheme \<Rightarrow> path \<Rightarrow> string \<Rightarrow> run_state \<Rightarrow> run_state" where
  "organizar_item env camera_path item s =
     (let item_path = os_path_join camera_path item in
      if os_path_isdir (disk s) item_path then s
      else
        (let ext = lower (splitext_ext item) in
         if ext \<notin> set PHOTO_EXTENSIONS_date then s
         else
           (case obtener_fecha_captura env item_path of
              (fecha_captura, records) \<Rightarrow>
                (let s0 = s\<lparr>logged := logged s @ records\<rparr> in
                 case carpeta_destino fecha_captura of
                   Inl e \<Rightarrow> s0\<lparr>raised := Some e\<rparr>
                 | Inr carpeta \<Rightarrow>
                     (let destino_path = os_path_join camera_path carpeta in
                      case ensure_destino env destino_path s0 of
                        (False, s1) \<Rightarrow> s1
                      | (True, s1) \<Rightarrow>
                          if os_path_exists (disk s1) (os_path_join destino_path item) then
                            (log_add WARNING (DuplicadoDetectado item_path destino_path) s1)
                              \<lparr>duplicates := duplicates s1 @ [item_path]\<rparr>
                          else mover_foto env item camera_path destino_path ext s1)))))"

fun organizar_items :: "'a date_env_scheme \<Rightarrow> path \<Rightarrow> string list \<Rightarrow> run_state \<Rightarrow> run_state" where
  "organizar_items env camera_path [] s = s"
| "organizar_items env camera_path (item # rest) s =
     (let s1 = organizar_item env camera_path item s in
      if raised s1 \<noteq> None then s1 else organizar_items env camera_path rest s1)"

text \<open>One round of the outer loop (lines 174--183).\<close>

definition organizar_camara :: "'a date_env_scheme \<Rightarrow> string \<Rightarrow> run_state \<Rightarrow> run_state" where
  "organizar_camara env camera_folder s =
     (if camera_folder = ''PRIVATE'' then s
      else
        (let camera_path = os_path_join CAMARAS_DIR camera_folder in
         if \<not> os_path_isdir (disk s) camera_path then s
         else organizar_items env camera_path (os_listdir (disk s) camera_path)
                (log_add INFO (Procesando camera_path) s)))"

fun organizar_camaras :: "'a date_env_scheme \<Rightarrow> string list \<Rightarrow> run_state \<Rightarrow> run_state" where
  "organizar_camaras env [] s = s"
| "organizar_camaras env (camera_folder # rest) s =
     (let s1 = organizar_camara env camera_folder s in
      if raised s1 \<noteq> None then s1 else organizar_camaras env rest s1)"

text \<open>\<^verbatim>\<open>organizar_fotos_por_fecha(camaras)\<close> in a fresh process.\<close>

definition organizar_fotos_por_fecha :: "'a date_env_scheme \<Rightarrow> string list \<Rightarrow> filesystem \<Rightarrow> run_state" where
  "organizar_fotos_por_fecha env camaras fsys = organizar_camaras env camaras (initial_state fsys)"

subsection \<open>raw\_sort v1.3: \<^verbatim>\<open>is_duplicate\<close> and the loop body of \<^verbatim>\<open>procesar_directorio\<close>\<close>

text \<open>
  \<^verbatim>\<open>is_duplicate\<close> of raw\_sort (lines 100--116) differs from the one of model\_sort in the
  list to which it appends a file that cannot be hashed: \<^verbatim>\<open>duplicates\<close>.
\<close>

definition is_duplicate_raw ::
  "'a model_env_scheme \<Rightarrow> path \<Rightarrow> path \<Rightarrow> run_state \<Rightarrow> bool \<times> run_state" where
  "is_duplicate_raw env dest_folder src_path s =
     (case sha256_of_file_logged (sha256 env) src_path s of
        (None, s1) \<Rightarrow>
          (True, (log_add ERROR (HashImposible src_path) s1)\<lparr>duplicates := duplicates s1 @ [src_path]\<rparr>)
      | (Some src_hash, s1) \<Rightarrow>
          scan_dest (sha256 env) src_hash (os_walk_files (disk s1) dest_folder) s1)"

text \<open>Lines 186--197: the entry of the \<^verbatim>\<open>RAW\<close> folder in \<^verbatim>\<open>folders_report\<close>.\<close>

definition report_raw :: "bool \<Rightarrow> path \<Rightarrow> string \<Rightarrow> nat \<Rightarrow> (path \<times> folder_stats) list \<Rightarrow> (path \<times> folder_stats) list" where
  "report_raw created_now raw_dir ext size_bytes report =
     (let old = (case map_of report raw_dir of
                   None \<Rightarrow> \<lparr>created = created_now, photos_count = 0, ext_count = [], bytes_moved = 0\<rparr>
                 | Some st \<Rightarrow> st);
          rpt = (if created_now then old\<lparr>created := True\<rparr> else old)
      in AList.update raw_dir
           (rpt\<lparr>photos_count := photos_count rpt + 1,
                bytes_moved := bytes_moved rpt + size_bytes,
                ext_count := bump_ext ext (ext_count rpt)\<rparr>) report)"

text \<open>
  Lines 171--200, for the file \<open>rf\<close> of \<open>directorio\<close>: \<^verbatim>\<open>os.path.getsize\<close> stands outside the
  \<^verbatim>\<open>try\<close>, the move inside it.
\<close>

definition mover_raw :: "'a model_env_scheme \<Rightarrow> bool \<Rightarrow> path \<Rightarrow> string \<Rightarrow> run_state \<Rightarrow> run_state" where
  "mover_raw env created_now directorio rf s =
     (let src = os_path_join directorio rf;
          raw_dir = os_path_join directorio ''RAW'';
          dst = os_path_join raw_dir rf
      in case os_path_getsize (disk s) src of
           Inl e \<Rightarrow> s\<lparr>raised := Some e\<rparr>
         | Inr size_bytes \<Rightarrow>
             (case is_duplicate_raw env raw_dir src s of
                (True, s1) \<Rightarrow> log_add WARNING (DuplicadoRaw src) s1
              | (False, s1) \<Rightarrow>
                  (case shutil_move env src dst (disk s1) of
                     (None, fsys) \<Rightarrow>
                       (log_add INFO (MovidoRaw rf raw_dir) (s1\<lparr>disk := fsys\<rparr>))
                         \<lparr>folders_report :=
                            report_raw created_now raw_dir (lower (splitext_ext rf)) size_bytes
                              (folders_report s1)\<rparr>
                   | (Some e, fsys) \<Rightarrow> log_add ERROR (ErrorMoviendo rf e) (s1\<lparr>disk := fsys\<rparr>))))"

subsection \<open>dup\_search v2.4: \<^verbatim>\<open>detectar_duplicados\<close>\<close>

text \<open>
  The dictionaries of the script keep insertion order, so they are association lists:
  \<^verbatim>\<open>files_by_folder\<close> maps a directory to its file names, \<^verbatim>\<open>camera_to_names\<close> a camera
  to the paths of each file name, \<^verbatim>\<open>duplicates_report\<close> a camera and a file name to the
  paths of each digest.
\<close>

type_synonym name_dict = "(string \<times> path list) list"
type_synonym dup_report = "(string \<times> (string \<times> (digest \<times> path list) list) list) list"

text \<open>
  \<^verbatim>\<open>os.path.relpath(folder, CAMERAS_DIR).split(os.sep, 1)[0]\<close>: the first component
  below the root (\<^verbatim>\<open>.\<close> for the root itself, \<^verbatim>\<open>..\<close> outside it).
\<close>

definition camera_of :: "path \<Rightarrow> string" where
  "camera_of folder =
     (if take (length CAMERAS_DIR) folder = CAMERAS_DIR then
        (case drop (length CAMERAS_DIR) folder of [] \<Rightarrow> ''.'' | cam # rest \<Rightarrow> cam)
      else ''..'')"

text \<open>\<^verbatim>\<open>d.setdefault(cam, {}).setdefault(name, []).append(p)\<close> (lines 172--174).\<close>

definition add_path :: "string \<Rightarrow> string \<Rightarrow> path \<Rightarrow> (string \<times> name_dict) list \<Rightarrow> (string \<times> name_dict) list" where
  "add_path cam name p camera_to_names =
     (let names = (case map_of camera_to_names cam of None \<Rightarrow> [] | Some nd \<Rightarrow> nd);
          paths = (case map_of names name of None \<Rightarrow> [] | Some ps \<Rightarrow> ps)
      in AList.update cam (AList.update name (paths @ [p]) names) camera_to_names)"

fun agrupar_nombres :: "path \<Rightarrow> string list \<Rightarrow> (string \<times> name_dict) list \<Rightarrow> (string \<times> name_dict) list" where
  "agrupar_nombres folder [] camera_to_names = camera_to_names"
| "agrupar_nombres folder (name # rest) camera_to_names =
     agrupar_nombres folder rest
       (add_path (camera_of folder) name (os_path_join folder name) camera_to_names)"

fun agrupar :: "(path \<times> string list) list \<Rightarrow> (string \<times> name_dict) list \<Rightarrow> (string \<times> name_dict) list" where
  "agrupar [] camera_to_names = camera_to_names"
| "agrupar ((folder, fnames) # rest) camera_to_names =
     agrupar rest (agrupar_nombres folder fnames camera_to_names)"

text \<open>Lines 185--189: hash every path of a bucket and group the paths by digest.\<close>

fun hash_paths ::
  "(bytes \<Rightarrow> digest) \<Rightarrow> path list \<Rightarrow> (digest \<times> path list) list \<Rightarrow> run_state \<Rightarrow>
     (digest \<times> path list) list \<times> run_state" where
  "hash_paths H [] hash_to_paths s = (hash_to_paths, s)"
| "hash_paths H (p # rest) hash_to_paths s =
     (case sha256_of_file_logged H p s of
        (None, s1) \<Rightarrow> hash_paths H rest hash_to_paths s1
      | (Some h, s1) \<Rightarrow>
          hash_paths H rest
            (AList.update h ((case map_of hash_to_paths h of None \<Rightarrow> [] | Some ps \<Rightarrow> ps) @ [p])
               hash_to_paths) s1)"

text \<open>Lines 191--200: a digest with more than one path goes to the report.\<close>

definition set_group :: "string \<Rightarrow> string \<Rightarrow> digest \<Rightarrow> path list \<Rightarrow> dup_report \<Rightarrow> dup_report" where
  "set_group cam name h ps report =
     (let by_name = (case map_of report cam of None \<Rightarrow> [] | Some d \<Rightarrow> d);
          by_hash = (case map_of by_name name of None \<Rightarrow> [] | Some d \<Rightarrow> d)
      in AList.update cam (AList.update name (AList.update h ps by_hash) by_name) report)"

fun registrar ::
  "string \<Rightarrow> string \<Rightarrow> (digest \<times> path list) list \<Rightarrow> dup_report \<times> run_state \<Rightarrow> dup_report \<times> run_state" where
  "registrar cam name [] rs = rs"
| "registrar cam name ((h, ps) # rest) (report, s) =
     registrar cam name rest
       (if 1 < length ps then (set_group cam name h ps report, log_add WARNING (DuplicadoGrupo cam name h) s)
        else (report, s))"

text \<open>The body of the loop over the names of a camera (lines 181--200).\<close>

definition resolver_nombre ::
  "(bytes \<Rightarrow> digest) \<Rightarrow> string \<Rightarrow> string \<Rightarrow> path list \<Rightarrow> dup_report \<times> run_state \<Rightarrow> dup_report \<times> run_state" where
  "resolver_nombre H cam name paths rs =
     (if length paths < 2 then rs
      else
        (case hash_paths H paths [] (snd rs) of
           (hash_to_paths, s1) \<Rightarrow> registrar cam name hash_to_paths (fst rs, s1)))"

fun resolver_nombres ::
  "(bytes \<Rightarrow> digest) \<Rightarrow> string \<Rightarrow> name_dict \<Rightarrow> dup_report \<times> run_state \<Rightarrow> dup_report \<times> run_state" where
  "resolver_nombres H cam [] rs = rs"
| "resolver_nombres H cam ((name, paths) # rest) rs =
     resolver_nombres H cam rest (resolver_nombre H cam name paths rs)"

fun resolver_camaras ::
  "(bytes \<Rightarrow> digest) \<Rightarrow> (string \<times> name_dict) list \<Rightarrow> dup_report \<times> run_state \<Rightarrow> dup_report \<times> run_state" where
  "resolver_camaras H [] rs = rs"
| "resolver_camaras H ((cam, names) # rest) rs =
     resolver_camaras H rest (resolver_nombres H cam names rs)"

text \<open>
  \<^verbatim>\<open>detectar_duplicados()\<close> in a fresh process, on the \<^verbatim>\<open>files_by_folder\<close> that
  \<^verbatim>\<open>listar_contenidos\<close> left: the report and the final state.
\<close>

definition detectar_duplicados ::
  "(bytes \<Rightarrow> digest) \<Rightarrow> (path \<times> string list) list \<Rightarrow> filesystem \<Rightarrow> dup_report \<times> run_state" where
  "detectar_duplicados H files_by_folder fsys =
     resolver_camaras H (agrupar files_by_folder []) ([], initial_state fsys)"

text \<open>The buckets of the grouping: each camera and file name with its paths.\<close>

definition buckets :: "(string \<times> name_dict) list \<Rightarrow> ((string \<times> string) \<times> path list) list" where
  "buckets camera_to_names =
     concat (map (\<lambda>(cam, names). map (\<lambda>(name, paths). ((cam, name), paths)) names) camera_to_names)"

subsection \<open>Where a run of model\_sort may write\<close>

text \<open>
  The paths at which \<^verbatim>\<open>shutil.move\<close> can put the file \<open>item\<close> of the root: directly in
  the folder of its camera model or, when a directory of that name is already there,
  inside that directory.
\<close>

definition destinations :: "'a model_env_scheme \<Rightarrow> string \<Rightarrow> path list" where
  "destinations env item =
     (case exif_model env (os_path_join CAMERAS_DIR item) of
        None \<Rightarrow> []
      | Some model \<Rightarrow>
          (case map_of MODEL_TO_FOLDER model of
             None \<Rightarrow> []
           | Some folder \<Rightarrow>
               (let dest = os_path_join CAMERAS_DIR (sanitize_folder_name folder)
                in [os_path_join dest item, os_path_join (os_path_join dest item) item])))"

text \<open>The destination folder of the file \<open>item\<close> of the root, when its model is mapped.\<close>

definition dest_of :: "'a model_env_scheme \<Rightarrow> string \<Rightarrow> path option" where
  "dest_of env item =
     (case exif_model env (os_path_join CAMERAS_DIR item) of
        None \<Rightarrow> None
      | Some model \<Rightarrow>
          (case map_of MODEL_TO_FOLDER model of
             None \<Rightarrow> None
           | Some folder \<Rightarrow> Some (os_path_join CAMERAS_DIR (sanitize_folder_name folder))))"

text \<open>The destination folders that the mapping can name.\<close>

definition folder_paths :: "path list" where
  "folder_paths = map (\<lambda>(model, folder). os_path_join CAMERAS_DIR (sanitize_folder_name folder)) MODEL_TO_FOLDER"

text \<open>
  What one round of the loop of \<^verbatim>\<open>classify_images\<close> may do: move the file \<open>item\<close> of the
  root to one of its destinations, create a destination folder where nothing was, or
  write at a destination of \<open>item\<close>; and it reports nothing but \<open>item\<close>, which was a
  regular file.
\<close>

definition step_frame :: "'a model_env_scheme \<Rightarrow> string \<Rightarrow> run_state \<Rightarrow> run_state \<Rightarrow> bool" where
  "step_frame env item s s' =
     (let src = os_path_join CAMERAS_DIR item in
      (moved s' = moved s \<or> moved s' = moved s @ [src]) \<and>
      set (unmapped s') \<subseteq> insert src (set (unmapped s)) \<and>
      set (duplicates s') \<subseteq> insert src (set (duplicates s)) \<and>
      ((moved s' \<noteq> moved s \<or> unmapped s' \<noteq> unmapped s \<or> duplicates s' \<noteq> duplicates s) \<longrightarrow>
         os_path_isfile (disk s) src) \<and>
      (moved s' = moved s @ [src] \<longrightarrow>
         lower (splitext_ext item) \<in> set PHOTO_EXTENSIONS \<and> lookup (disk s') src = None \<and>
         (\<exists>t \<in> set (destinations env item). lookup (disk s') t = lookup (disk s) src)) \<and>
      (\<forall>q. lookup (disk s') q \<noteq> lookup (disk s) q \<longrightarrow>
         (q = src \<and> moved s' = moved s @ [src]) \<or>
         (q \<in> set (destinations env item) \<and> os_path_isfile (disk s) src) \<or>
         (q \<in> set folder_paths \<and> lookup (disk s) q = None \<and> lookup (disk s') q = Some Dir)))"

text \<open>
  The invariant of the loop, against the file system \<open>fs0\<close> at the start of the run:
  every file reported as moved was a file of the root, is gone from there and one of its
  destinations holds what it held; every other file of the root is as it was; whatever
  is reported as unmapped or duplicate was a file of the root; and the root has no files
  that it did not have at the start.
\<close>

definition model_inv :: "'a model_env_scheme \<Rightarrow> filesystem \<Rightarrow> run_state \<Rightarrow> bool" where
  "model_inv env fs0 s =
     ((\<forall>p \<in> set (moved s). os_path_isfile fs0 p \<and> lookup (disk s) p = None \<and>
          (\<exists>item. p = os_path_join CAMERAS_DIR item \<and>
             lower (splitext_ext item) \<in> set PHOTO_EXTENSIONS \<and>
             (\<exists>t \<in> set (destinations env item). lookup (disk s) t = lookup fs0 p))) \<and>
      (\<forall>p. length p = 2 \<and> os_path_isfile fs0 p \<and> p \<notin> set (moved s) \<longrightarrow>
          lookup (disk s) p = lookup fs0 p) \<and>
      (\<forall>p \<in> set (unmapped s) \<union> set (duplicates s). length p = 2 \<and> os_path_isfile fs0 p) \<and>
      (\<forall>p. length p = 2 \<and> os_path_isfile (disk s) p \<longrightarrow> os_path_isfile fs0 p))"

subsection \<open>Where a run of date\_sort may write\<close>

text \<open>
  date\_sort keeps no list of the files it moved; the log does. Each
  \<^verbatim>\<open>Movida foto\<close> entry names the file and its month folder, hence the source and the
  destination of one move. \<open>fotos_movidas\<close> is the number that the summary prints.
\<close>

definition relocation_of :: "log_level \<times> log_msg \<Rightarrow> (path \<times> path) list" where
  "relocation_of e =
     (case snd e of
        MovidaFoto item destino_path \<Rightarrow>
          [(os_path_join (butlast destino_path) item, os_path_join destino_path item)]
      | _ \<Rightarrow> [])"

definition relocations :: "run_state \<Rightarrow> (path \<times> path) list" where
  "relocations s = concat (map relocation_of (logged s))"




text \<open>
  No two files reported as moved went to the same destination folder with the same
  content.
\<close>

definition at_most_one :: "'a model_env_scheme \<Rightarrow> filesystem \<Rightarrow> run_state \<Rightarrow> bool" where
  "at_most_one env fs0 s =
     (\<forall>p \<in> set (moved s). \<forall>q \<in> set (moved s).
        p \<noteq> q \<and> dest_of env (last p) = dest_of env (last q) \<longrightarrow> lookup fs0 p \<noteq> lookup fs0 q)"

subsection \<open>What a second run of date\_sort finds\<close>


subsection \<open>Files for the fingerprint\<close>



definition byte_sum :: "bytes \<Rightarrow> digest" where
  "byte_sum bs = word_of_nat (sum_list (map unat bs))"

text \<open>
  What lies below the root's folders during a run of model\_sort when no failed move
  leaves anything behind: every path of three or more components holds what it held at
  the start, or what a file reported as moved into that folder held at the start.
\<close>

definition under_inv :: "'a model_env_scheme \<Rightarrow> filesystem \<Rightarrow> run_state \<Rightarrow> bool" where
  "under_inv env fs0 s =
     (\<forall>q. 3 \<le> length q \<longrightarrow>
        lookup (disk s) q = lookup fs0 q \<or>
        (\<exists>p \<in> set (moved s). lookup (disk s) q = lookup fs0 p \<and>
           (\<exists>d. dest_of env (last p) = Some d \<and> is_under d q)))"

text \<open>
  Three photos of one camera model, listed as \<^verbatim>\<open>x.jpg\<close>, \<^verbatim>\<open>b.jpg\<close>, \<^verbatim>\<open>a.jpg\<close>; the last
  two hold the same bytes.
\<close>

definition fs_trio :: filesystem where
  "fs_trio = [([''CAMERAS''], Dir), ([''CAMERAS'', ''x.jpg''], File [9] True),
     ([''CAMERAS'', ''b.jpg''], File [1, 2] True), ([''CAMERAS'', ''a.jpg''], File [1, 2] True)]"

section \<open>Properties\<close>

subsection \<open>The fingerprint depends on the content only\<close>

lemma concat_read_chunks: "0 < n \<Longrightarrow> concat (read_chunks n c) = c"
proof (induction n c rule: read_chunks.induct)
  case (1 chunk_size content)
  show ?case
  proof (cases "content = []")
    case True
    then show ?thesis by (simp add: read_chunks.simps)
  next
    case False
    with 1 have "concat (read_chunks chunk_size (drop chunk_size content)) = drop chunk_size content"
      by simp
    with False 1(2) show ?thesis
      by (subst read_chunks.simps) simp
  qed
qed

lemma foldl_hashlib_update: "foldl hashlib_update acc chunks = acc @ concat chunks"
  by (induction chunks arbitrary: acc) (simp_all add: hashlib_update_def)

lemma fingerprint_content: "0 < n \<Longrightarrow> fingerprint H n c = H c"
  by (simp add: fingerprint_def hexdigest_def foldl_hashlib_update concat_read_chunks)

lemma sha256_of_file_readable:
  "lookup fsys p = Some (File c True) \<Longrightarrow> sha256_of_file H fsys p default_chunk_size = Some (H c)"
  by (simp add: sha256_of_file_def fingerprint_content default_chunk_size_def)

lemma sha256_of_file_unreadable:
  "lookup fsys p = Some (File c False) \<Longrightarrow> sha256_of_file H fsys p n = None"
  by (simp add: sha256_of_file_def)

text \<open>
  Equal digests for readable files mean equal hashes of their contents. Whether that
  means equal contents is a matter of \<^verbatim>\<open>hashlib\<close>: no function from byte strings to
  256-bit digests is injective, there being infinitely many byte strings.
\<close>

lemma no_injective_digest: "\<not> inj (f :: bytes \<Rightarrow> digest)"
proof
  assume "inj f"
  have "finite (range f)" by (rule finite_subset[OF subset_UNIV]) simp
  with \<open>inj f\<close> have "finite (UNIV :: bytes set)" using finite_imageD[of f UNIV] by blast
  then show False using infinite_UNIV_listI by blast
qed




subsection \<open>The month folder of a capture date\<close>

declare str_nat.simps [simp del]

lemma str_nat_one_digit: "n < 10 \<Longrightarrow> str_nat n = [digit_char n]"
  by (subst str_nat.simps) simp

lemma str_nat_two_digits: "10 \<le> n \<Longrightarrow> n < 100 \<Longrightarrow> str_nat n = [digit_char (n div 10), digit_char n]"
  by (subst str_nat.simps) (simp add: str_nat_one_digit)

lemma length_fmt_02d: "n < 100 \<Longrightarrow> length (fmt_02d n) = 2"
  by (cases "n < 10") (simp_all add: fmt_02d_def str_nat_one_digit str_nat_two_digits)

lemma str_nat_step: "10 \<le> n \<Longrightarrow> str_nat n = str_nat (n div 10) @ [digit_char n]"
  by (subst str_nat.simps) simp

lemma length_str_nat_year: "1000 \<le> n \<Longrightarrow> n \<le> 9999 \<Longrightarrow> length (str_nat n) = 4"
proof -
  assume a: "1000 \<le> n" "n \<le> 9999"
  have b: "10 \<le> n" "10 \<le> n div 10" "10 \<le> n div 10 div 10" "n div 10 div 10 < 100"
    using a by auto
  show ?thesis
    by (simp add: str_nat_step[OF b(1)] str_nat_step[OF b(2)] str_nat_two_digits[OF b(3,4)])
qed

lemma fmt_02d_12: "fmt_02d 12 = ''12''"
  by (simp add: fmt_02d_def str_nat_two_digits digit_char_def)

lemma minus_one_day_previous_month:
  assumes "valid_datetime f" "day f = 1" "minus_one_day f = Inr g"
  shows "valid_datetime g \<and> day g = days_in_month (year g) (month g) \<and>
         (if month f = 1 then month g = 12 \<and> year g + 1 = year f else month g + 1 = month f \<and> year g = year f)"
proof (cases "1 < month f")
  case True
  with assms have g: "g = f\<lparr>month := month f - 1, day := days_in_month (year f) (month f - 1)\<rparr>"
    by (simp add: minus_one_day_def)
  have "1 \<le> days_in_month (year f) (month f - 1)" by (simp add: days_in_month_def)
  with True assms(1) show ?thesis unfolding g by (auto simp: valid_datetime_def)
next
  case False
  with assms have m: "month f = 1" by (simp add: valid_datetime_def)
  with assms have y: "1 < year f" by (auto simp: minus_one_day_def split: if_splits)
  with m assms have g: "g = f\<lparr>year := year f - 1, month := 12, day := 31\<rparr>"
    by (simp add: minus_one_day_def)
  from y m assms(1) show ?thesis unfolding g by (auto simp: valid_datetime_def days_in_month_def)
qed

subsection \<open>File system updates\<close>

lemma lookup_fs_write: "lookup (fs_write p n fsys) q = (if q = p then Some n else lookup fsys q)"
  by (simp add: lookup_def fs_write_def update_conv')

lemma lookup_fs_remove: "lookup (fs_remove p fsys) q = (if q = p then None else lookup fsys q)"
  by (simp add: lookup_def fs_remove_def delete_conv')

lemma lookup_in_keys: "lookup fsys p = Some v \<Longrightarrow> p \<in> set (map fst fsys)"
  by (metis lookup_def map_of_SomeD image_eqI fst_conv set_map)


lemma isfile_iff: "os_path_isfile fsys p = (\<exists>c r. lookup fsys p = Some (File c r))"
  by (auto simp: os_path_isfile_def split: option.splits node.splits)

lemma makedirs_effect:
  assumes "os_makedirs_exist_ok env p fsys = Inr fsys'"
  shows "lookup fsys' q = (if q = p \<and> lookup fsys p = None then Some Dir else lookup fsys q)"
  using assms
  by (auto simp: os_makedirs_exist_ok_def lookup_fs_write split: option.splits node.splits if_splits)

lemma makedirs_isdir:
  assumes "os_makedirs_exist_ok env p fsys = Inr fsys'"
  shows "lookup fsys' p = Some Dir"
  using assms
  by (auto simp: os_makedirs_exist_ok_def lookup_fs_write split: option.splits node.splits if_splits)

lemma shutil_move_ok:
  assumes "shutil_move env src dst fsys = (None, fsys')"
  shows "\<exists>c r. lookup fsys src = Some (File c r) \<and>
           (\<forall>q. lookup fsys' q =
              (if q = real_dst fsys src dst then Some (File c r)
               else if q = src then None else lookup fsys q))"
  using assms
  by (auto simp: shutil_move_def Let_def lookup_fs_write lookup_fs_remove
      split: option.splits node.splits if_splits)

lemma shutil_move_failed:
  assumes "shutil_move env src dst fsys = (Some e, fsys')"
  shows "\<forall>q. q \<noteq> real_dst fsys src dst \<longrightarrow> lookup fsys' q = lookup fsys q"
  using assms
  by (auto simp: shutil_move_def Let_def lookup_fs_write lookup_fs_remove
      split: option.splits node.splits if_splits)

lemma shutil_move_changes_file:
  assumes "shutil_move env src dst fsys = (r, fsys')" and "lookup fsys' q \<noteq> lookup fsys q"
  shows "os_path_isfile fsys src"
  using assms
  by (auto simp: shutil_move_def Let_def isfile_iff split: option.splits node.splits if_splits)


subsection \<open>Fields that hashing leaves alone\<close>

lemma sha256_logged_fields:
  assumes "sha256_of_file_logged H p s = (h, s')"
  shows "disk s' = disk s" "moved s' = moved s" "duplicates s' = duplicates s"
    "unmapped s' = unmapped s" "raised s' = raised s" "folders_report s' = folders_report s"
    "h = sha256_of_file H (disk s) p default_chunk_size"
  using assms by (auto simp: sha256_of_file_logged_def Let_def log_add_def split: if_splits)

lemma scan_dest_fields:
  assumes "scan_dest H h files s = (b, s')"
  shows "disk s' = disk s \<and> moved s' = moved s \<and> duplicates s' = duplicates s \<and>
    unmapped s' = unmapped s \<and> raised s' = raised s"
  using assms
proof (induction files arbitrary: s)
  case Nil
  then show ?case by simp
next
  case (Cons f files)
  obtain h1 s1 where 1: "sha256_of_file_logged H f s = (h1, s1)" by (cases "sha256_of_file_logged H f s")
  note f = sha256_logged_fields[OF 1]
  show ?case
  proof (cases "h1 = Some h")
    case True
    with Cons.prems 1 have "s' = s1" by simp
    with f show ?thesis by simp
  next
    case False
    with Cons.prems 1 have "scan_dest H h files s1 = (b, s')" by simp
    from Cons.IH[OF this] f show ?thesis by simp
  qed
qed

lemma scan_dest_finds:
  assumes "t \<in> set files" and "sha256_of_file H (disk s) t default_chunk_size = Some h"
  shows "fst (scan_dest H h files s)"
  using assms
proof (induction files arbitrary: s)
  case Nil
  then show ?case by simp
next
  case (Cons f files)
  obtain h1 s1 where 1: "sha256_of_file_logged H f s = (h1, s1)" by (cases "sha256_of_file_logged H f s")
  note f = sha256_logged_fields[OF 1]
  show ?case
  proof (cases "h1 = Some h")
    case True
    with 1 show ?thesis by simp
  next
    case False
    with f(7) Cons.prems have "t \<in> set files" by auto
    moreover have "sha256_of_file H (disk s1) t default_chunk_size = Some h"
      using Cons.prems f by simp
    ultimately have "fst (scan_dest H h files s1)" by (rule Cons.IH)
    with False 1 show ?thesis by simp
  qed
qed

lemma is_duplicate_fields:
  assumes "is_duplicate env dest src s = (b, s')"
  shows "disk s' = disk s" "moved s' = moved s" "duplicates s' = duplicates s" "raised s' = raised s"
    "unmapped s' = unmapped s \<or> unmapped s' = unmapped s @ [src]"
proof -
  obtain h1 s1 where 1: "sha256_of_file_logged (sha256 env) src s = (h1, s1)"
    by (cases "sha256_of_file_logged (sha256 env) src s")
  note f = sha256_logged_fields[OF 1]
  have "disk s' = disk s \<and> moved s' = moved s \<and> duplicates s' = duplicates s \<and> raised s' = raised s \<and>
    (unmapped s' = unmapped s \<or> unmapped s' = unmapped s @ [src])"
  proof (cases h1)
    case None
    with assms 1 have "s' = (log_add ERROR (HashImposible src) s1)\<lparr>unmapped := unmapped s1 @ [src]\<rparr>"
      by (simp add: is_duplicate_def)
    with f show ?thesis by (simp add: log_add_def)
  next
    case (Some h)
    with assms 1 have "scan_dest (sha256 env) h (os_walk_files (disk s1) dest) s1 = (b, s')"
      by (simp add: is_duplicate_def)
    from scan_dest_fields[OF this] f show ?thesis by simp
  qed
  then show "disk s' = disk s" "moved s' = moved s" "duplicates s' = duplicates s" "raised s' = raised s"
    "unmapped s' = unmapped s \<or> unmapped s' = unmapped s @ [src]" by simp_all
qed

lemma is_duplicate_false_readable:
  assumes "is_duplicate env dest src s = (False, s')"
  shows "\<exists>c. lookup (disk s) src = Some (File c True)"
proof -
  obtain h1 s1 where 1: "sha256_of_file_logged (sha256 env) src s = (h1, s1)"
    by (cases "sha256_of_file_logged (sha256 env) src s")
  from assms 1 have "h1 \<noteq> None" by (cases h1) (auto simp: is_duplicate_def)
  with sha256_logged_fields(7)[OF 1] show ?thesis
    by (auto simp: sha256_of_file_def split: option.splits node.splits bool.splits)
qed

subsection \<open>One round of model\_sort\<close>

lemma step_frame_refl: "step_frame env item s s"
  by (auto simp: step_frame_def Let_def)

lemma step_frame_same_lists:
  assumes "disk s' = disk s" "moved s' = moved s" "unmapped s' = unmapped s" "duplicates s' = duplicates s"
  shows "step_frame env item s s'"
  using assms by (auto simp: step_frame_def Let_def)

lemma step_frame_unmapped:
  assumes "os_path_isfile (disk s) (os_path_join CAMERAS_DIR item)"
   and "disk s' = disk s" "moved s' = moved s" "unmapped s' = unmapped s @ [os_path_join CAMERAS_DIR item]"
   "duplicates s' = duplicates s"
  shows "step_frame env item s s'"
  using assms by (auto simp: step_frame_def Let_def)

lemma folder_in_paths:
  "map_of MODEL_TO_FOLDER model = Some folder \<Longrightarrow>
   os_path_join CAMERAS_DIR (sanitize_folder_name folder) \<in> set folder_paths"
  unfolding folder_paths_def by (force dest: map_of_SomeD)

lemma destinations_eq:
  assumes "exif_model env (os_path_join CAMERAS_DIR item) = Some model"
    and "map_of MODEL_TO_FOLDER model = Some folder"
  shows "destinations env item =
    [os_path_join (os_path_join CAMERAS_DIR (sanitize_folder_name folder)) item,
     os_path_join (os_path_join (os_path_join CAMERAS_DIR (sanitize_folder_name folder)) item) item]"
  using assms by (simp add: destinations_def Let_def)

lemma real_dst_cases:
  "real_dst fsys (os_path_join d item) dst = dst \<or> real_dst fsys (os_path_join d item) dst = os_path_join dst item"
  by (simp add: real_dst_def os_path_join_def)

lemma relocate_frame:
  assumes isf: "os_path_isfile (disk s) (os_path_join CAMERAS_DIR item)"
    and ext: "lower (splitext_ext item) \<in> set PHOTO_EXTENSIONS"
    and exif: "exif_model env (os_path_join CAMERAS_DIR item) = Some model"
    and folder: "map_of MODEL_TO_FOLDER model = Some folder"
  shows "step_frame env item s (relocate env item folder s)"
proof -
  define src where "src = os_path_join CAMERAS_DIR item"
  define dest where "dest = os_path_join CAMERAS_DIR (sanitize_folder_name folder)"
  define s1 where "s1 = s\<lparr>scanned_cameras := List.insert folder (scanned_cameras s)\<rparr>"
  have dests: "destinations env item = [os_path_join dest item, os_path_join (os_path_join dest item) item]"
    using destinations_eq[OF exif folder] by (simp add: dest_def)
  have destp: "dest \<in> set folder_paths" using folder_in_paths[OF folder] by (simp add: dest_def)
  have srcfile: "os_path_isfile (disk s) src" using isf by (simp add: src_def)
  have len: "src \<noteq> os_path_join dest item" "src \<noteq> os_path_join (os_path_join dest item) item"
    by (simp_all add: src_def dest_def os_path_join_def CAMERAS_DIR_def)
  show ?thesis
  proof (cases "os_makedirs_exist_ok env dest (disk s1)")
    case (Inl e)
    then have "relocate env item folder s = s1\<lparr>raised := Some e\<rparr>"
      by (simp add: relocate_def Let_def s1_def dest_def)
    then show ?thesis by (simp add: step_frame_same_lists s1_def)
  next
    case (Inr fsys)
    then have mk: "os_makedirs_exist_ok env dest (disk s) = Inr fsys" by (simp add: s1_def)
    note mke = makedirs_effect[OF mk]
    have srcsame: "lookup fsys src = lookup (disk s) src"
      using srcfile by (auto simp: mke isfile_iff)
    obtain b s2 where dup: "is_duplicate env dest src (s1\<lparr>disk := fsys\<rparr>) = (b, s2)"
      by (cases "is_duplicate env dest src (s1\<lparr>disk := fsys\<rparr>)")
    note df = is_duplicate_fields[OF dup]
    have d2: "disk s2 = fsys" "moved s2 = moved s" "duplicates s2 = duplicates s"
      "unmapped s2 = unmapped s \<or> unmapped s2 = unmapped s @ [src]"
      using df by (simp_all add: s1_def)
    show ?thesis
    proof (cases b)
      case True
      then have r: "relocate env item folder s =
          (log_add WARNING (Duplicado src) s2)\<lparr>duplicates := duplicates s2 @ [src]\<rparr>"
        using Inr dup by (simp add: relocate_def Let_def s1_def dest_def src_def)
      show ?thesis
        unfolding r step_frame_def Let_def src_def[symmetric]
        using d2 srcfile destp mke by (auto simp: log_add_def)
    next
      case False
      obtain r fsys' where mv: "shutil_move env src (os_path_join dest item) (disk s2) = (r, fsys')"
        by (cases "shutil_move env src (os_path_join dest item) (disk s2)")
      then have mv': "shutil_move env src (os_path_join dest item) fsys = (r, fsys')" using d2 by simp
      have tgt: "real_dst fsys src (os_path_join dest item) \<in> set (destinations env item)"
        using real_dst_cases[of fsys CAMERAS_DIR item "os_path_join dest item"]
        by (auto simp: dests src_def)
      show ?thesis
      proof (cases r)
        case None
        then have r: "relocate env item folder s =
            log_add INFO (Movido item dest) (s2\<lparr>disk := fsys', moved := moved s2 @ [src]\<rparr>)"
          using Inr dup False mv by (simp add: relocate_def Let_def s1_def dest_def src_def)
        from shutil_move_ok[OF mv'[unfolded None]] obtain c rd where
          c: "lookup fsys src = Some (File c rd)" and
          eff: "\<forall>q. lookup fsys' q =
              (if q = real_dst fsys src (os_path_join dest item) then Some (File c rd)
               else if q = src then None else lookup fsys q)" by blast
        have srcne: "src \<noteq> real_dst fsys src (os_path_join dest item)"
          using tgt len by (auto simp: dests)
        have a: "lookup fsys' src = None" using eff srcne by simp
        have b: "lookup fsys' (real_dst fsys src (os_path_join dest item)) = lookup (disk s) src"
          using eff c srcsame by simp
        have fr: "\<forall>q. lookup fsys' q \<noteq> lookup (disk s) q \<longrightarrow>
           q = src \<or> q \<in> set (destinations env item) \<or>
           (q \<in> set folder_paths \<and> lookup (disk s) q = None \<and> lookup fsys' q = Some Dir)"
        proof (intro allI impI)
          fix q assume ch: "lookup fsys' q \<noteq> lookup (disk s) q"
          show "q = src \<or> q \<in> set (destinations env item) \<or>
             (q \<in> set folder_paths \<and> lookup (disk s) q = None \<and> lookup fsys' q = Some Dir)"
          proof (cases "q = src \<or> q = real_dst fsys src (os_path_join dest item)")
            case True
            then show ?thesis using tgt by auto
          next
            case False
            then have "lookup fsys' q = lookup fsys q" using eff by simp
            with ch have "lookup fsys q \<noteq> lookup (disk s) q" by simp
            then have "q = dest \<and> lookup (disk s) dest = None \<and> lookup fsys q = Some Dir"
              by (auto simp: mke split: if_splits)
            with \<open>lookup fsys' q = lookup fsys q\<close> destp show ?thesis by auto
          qed
        qed
        show ?thesis
          unfolding r step_frame_def Let_def src_def[symmetric]
          using d2 srcfile ext a b tgt fr by (auto simp: log_add_def)
      next
        case (Some e)
        then have r: "relocate env item folder s =
            (log_add ERROR (ErrorMoviendo item e) (s2\<lparr>disk := fsys'\<rparr>))\<lparr>duplicates := duplicates s2 @ [src]\<rparr>"
          using Inr dup False mv by (simp add: relocate_def Let_def s1_def dest_def src_def)
        note fl = shutil_move_failed[OF mv'[unfolded Some]]
        have fr: "\<forall>q. lookup fsys' q \<noteq> lookup (disk s) q \<longrightarrow>
           q \<in> set (destinations env item) \<or>
           (q \<in> set folder_paths \<and> lookup (disk s) q = None \<and> lookup fsys' q = Some Dir)"
        proof (intro allI impI)
          fix q assume ch: "lookup fsys' q \<noteq> lookup (disk s) q"
          show "q \<in> set (destinations env item) \<or>
             (q \<in> set folder_paths \<and> lookup (disk s) q = None \<and> lookup fsys' q = Some Dir)"
          proof (cases "q = real_dst fsys src (os_path_join dest item)")
            case True
            then show ?thesis using tgt by auto
          next
            case False
            then have "lookup fsys' q = lookup fsys q" using fl by simp
            with ch have "lookup fsys q \<noteq> lookup (disk s) q" by simp
            then have "q = dest \<and> lookup (disk s) dest = None \<and> lookup fsys q = Some Dir"
              by (auto simp: mke split: if_splits)
            with \<open>lookup fsys' q = lookup fsys q\<close> destp show ?thesis by auto
          qed
        qed
        show ?thesis
          unfolding r step_frame_def Let_def src_def[symmetric]
          using d2 srcfile fr by (auto simp: log_add_def)
      qed
    qed
  qed
qed

lemma classify_item_frame: "step_frame env item s (classify_item env item s)"
proof -
  define src where "src = os_path_join CAMERAS_DIR item"
  show ?thesis
  proof (cases "os_path_isfile (disk s) src \<and> lower (splitext_ext item) \<in> set PHOTO_EXTENSIONS")
    case False
    then have "disk (classify_item env item s) = disk s \<and> moved (classify_item env item s) = moved s \<and>
       unmapped (classify_item env item s) = unmapped s \<and> duplicates (classify_item env item s) = duplicates s"
      by (auto simp: classify_item_def Let_def src_def log_add_def)
    then show ?thesis by (simp add: step_frame_same_lists)
  next
    case True
    show ?thesis
    proof (cases "exif_model env src")
      case None
      then have "classify_item env item s =
        (log_add ERROR (SinTagModel item) (log_add ERROR (NoExifModel src) (s\<lparr>processed_count := processed_count s + 1\<rparr>)))
          \<lparr>unmapped := unmapped s @ [src]\<rparr>"
        using True by (simp add: classify_item_def Let_def src_def get_camera_model_def log_add_def)
      then show ?thesis using True
        by (intro step_frame_unmapped) (simp_all add: src_def log_add_def)
    next
      case (Some model)
      show ?thesis
      proof (cases "\<exists>folder. map_of MODEL_TO_FOLDER model = Some folder \<and> folder \<noteq> []")
        case False
        then have "classify_item env item s =
          (log_add ERROR (ModeloNoMapeado model item) (s\<lparr>processed_count := processed_count s + 1\<rparr>))
            \<lparr>unmapped := unmapped s @ [src]\<rparr>"
          using True Some
          by (auto simp: classify_item_def Let_def src_def get_camera_model_def log_add_def split: option.splits)
        then show ?thesis using True
          by (intro step_frame_unmapped) (simp_all add: src_def log_add_def)
      next
        case ex: True
        then obtain folder where f: "map_of MODEL_TO_FOLDER model = Some folder" "folder \<noteq> []" by blast
        then have r: "classify_item env item s = relocate env item folder (s\<lparr>processed_count := processed_count s + 1\<rparr>)"
          using True Some by (simp add: classify_item_def Let_def src_def get_camera_model_def)
        have "step_frame env item (s\<lparr>processed_count := processed_count s + 1\<rparr>)
            (relocate env item folder (s\<lparr>processed_count := processed_count s + 1\<rparr>))"
          using True Some f by (intro relocate_frame) (simp_all add: src_def)
        then show ?thesis unfolding r by (simp add: step_frame_def)
      qed
    qed
  qed
qed

lemma destinations_shape:
  "t \<in> set (destinations env item) \<Longrightarrow> 3 \<le> length t \<and> last t = item"
  by (auto simp: destinations_def Let_def os_path_join_def CAMERAS_DIR_def split: option.splits)

lemma no_ext: "filter (\<lambda>c. c = CHR ''.'') name = [] \<Longrightarrow> splitext_ext name = []"
proof -
  assume "filter (\<lambda>c. c = CHR ''.'') name = []"
  then have "\<forall>c \<in> set (rev name). c \<noteq> CHR ''.''" by (auto simp: filter_empty_conv)
  then have "takeWhile (\<lambda>c. c \<noteq> CHR ''.'') (rev name) = rev name"
    by (simp add: takeWhile_eq_all_conv)
  then have "length (takeWhile (\<lambda>c. c \<noteq> CHR ''.'') (rev name)) = length name"
    by (simp only: length_rev)
  then show ?thesis unfolding splitext_ext_def Let_def by simp
qed

lemma folder_names_no_ext:
  "\<forall>(model, folder) \<in> set MODEL_TO_FOLDER. splitext_ext (sanitize_folder_name folder) = []"
  by (simp add: MODEL_TO_FOLDER_def no_ext sanitize_folder_name_def invalid_folder_chars_def)

lemma folder_paths_shape:
  "q \<in> set folder_paths \<Longrightarrow> length q = 2 \<and> lower (splitext_ext (last q)) \<notin> set PHOTO_EXTENSIONS"
  using folder_names_no_ext
  by (auto simp: folder_paths_def os_path_join_def CAMERAS_DIR_def lower_def PHOTO_EXTENSIONS_def)

subsection \<open>The invariant of model\_sort\<close>

lemma src_shape: "length (os_path_join CAMERAS_DIR item) = 2 \<and> last (os_path_join CAMERAS_DIR item) = item"
  by (simp add: os_path_join_def CAMERAS_DIR_def)

lemma model_inv_initial: "model_inv env fs0 (initial_state fs0)"
  by (simp add: model_inv_def initial_state_def)

lemma model_inv_step:
  assumes inv: "model_inv env fs0 s" and fr: "step_frame env item s s'"
  shows "model_inv env fs0 s'"
proof -
  define src where "src = os_path_join CAMERAS_DIR item"
  have srclen: "length src = 2" "last src = item" using src_shape by (simp_all add: src_def)
  from inv have
    A: "\<And>p. p \<in> set (moved s) \<Longrightarrow> os_path_isfile fs0 p \<and> lookup (disk s) p = None \<and>
          (\<exists>item. p = os_path_join CAMERAS_DIR item \<and>
             lower (splitext_ext item) \<in> set PHOTO_EXTENSIONS \<and>
             (\<exists>t \<in> set (destinations env item). lookup (disk s) t = lookup fs0 p))" and
    B: "\<And>p. length p = 2 \<Longrightarrow> os_path_isfile fs0 p \<Longrightarrow> p \<notin> set (moved s) \<Longrightarrow>
          lookup (disk s) p = lookup fs0 p" and
    C: "\<And>p. p \<in> set (unmapped s) \<union> set (duplicates s) \<Longrightarrow> length p = 2 \<and> os_path_isfile fs0 p" and
    D: "\<And>p. length p = 2 \<Longrightarrow> os_path_isfile (disk s) p \<Longrightarrow> os_path_isfile fs0 p"
    unfolding model_inv_def by simp_all
  from fr have
    F1: "moved s' = moved s \<or> moved s' = moved s @ [src]" and
    F2: "set (unmapped s') \<subseteq> insert src (set (unmapped s))" and
    F3: "set (duplicates s') \<subseteq> insert src (set (duplicates s))" and
    F4: "moved s' \<noteq> moved s \<or> unmapped s' \<noteq> unmapped s \<or> duplicates s' \<noteq> duplicates s \<Longrightarrow>
           os_path_isfile (disk s) src" and
    F5: "moved s' = moved s @ [src] \<Longrightarrow>
         lower (splitext_ext item) \<in> set PHOTO_EXTENSIONS \<and> lookup (disk s') src = None \<and>
         (\<exists>t \<in> set (destinations env item). lookup (disk s') t = lookup (disk s) src)" and
    F6: "\<And>q. lookup (disk s') q \<noteq> lookup (disk s) q \<Longrightarrow>
         (q = src \<and> moved s' = moved s @ [src]) \<or>
         (q \<in> set (destinations env item) \<and> os_path_isfile (disk s) src) \<or>
         (q \<in> set folder_paths \<and> lookup (disk s) q = None \<and> lookup (disk s') q = Some Dir)"
    unfolding step_frame_def Let_def src_def[symmetric] by simp_all
  have srcfresh: "os_path_isfile (disk s) src \<Longrightarrow> src \<notin> set (moved s) \<and> os_path_isfile fs0 src \<and>
      lookup (disk s) src = lookup fs0 src"
  proof -
    assume f: "os_path_isfile (disk s) src"
    then have 1: "src \<notin> set (moved s)" using A[of src] by (auto simp: isfile_iff)
    have 2: "os_path_isfile fs0 src" using D[OF srclen(1) f] .
    from B[OF srclen(1) 2 1] 1 2 show ?thesis by simp
  qed
  have A': "\<And>p. p \<in> set (moved s') \<Longrightarrow> os_path_isfile fs0 p \<and> lookup (disk s') p = None \<and>
          (\<exists>item. p = os_path_join CAMERAS_DIR item \<and>
             lower (splitext_ext item) \<in> set PHOTO_EXTENSIONS \<and>
             (\<exists>t \<in> set (destinations env item). lookup (disk s') t = lookup fs0 p))"
  proof -
    fix p assume p: "p \<in> set (moved s')"
    show "os_path_isfile fs0 p \<and> lookup (disk s') p = None \<and>
          (\<exists>item. p = os_path_join CAMERAS_DIR item \<and>
             lower (splitext_ext item) \<in> set PHOTO_EXTENSIONS \<and>
             (\<exists>t \<in> set (destinations env item). lookup (disk s') t = lookup fs0 p))"
    proof (cases "p \<in> set (moved s)")
      case True
      from A[OF True] obtain ip t where
        a: "os_path_isfile fs0 p" "lookup (disk s) p = None" "p = os_path_join CAMERAS_DIR ip"
           "lower (splitext_ext ip) \<in> set PHOTO_EXTENSIONS" "t \<in> set (destinations env ip)"
           "lookup (disk s) t = lookup fs0 p" by blast
      have plen: "length p = 2" "last p = ip" using src_shape a(3) by simp_all
      have 1: "lookup (disk s') p = None"
      proof (rule ccontr)
        assume n: "lookup (disk s') p \<noteq> None"
        with a(2) have "lookup (disk s') p \<noteq> lookup (disk s) p" by simp
        from F6[OF this] show False
        proof (elim disjE conjE)
          assume "p = src" "moved s' = moved s @ [src]"
          with F5 n show False by simp
        next
          assume "p \<in> set (destinations env item)"
          with destinations_shape[of p env item] plen show False by simp
        next
          assume "p \<in> set folder_paths"
          with folder_paths_shape[of p] plen a(4) show False by simp
        qed
      qed
      have 2: "lookup (disk s') t = lookup fs0 p"
      proof (rule ccontr)
        assume n: "lookup (disk s') t \<noteq> lookup fs0 p"
        with a(6) have "lookup (disk s') t \<noteq> lookup (disk s) t" by simp
        from F6[OF this] show False
        proof (elim disjE conjE)
          assume "t = src"
          with destinations_shape[OF a(5)] srclen show False by simp
        next
          assume t: "t \<in> set (destinations env item)" and f: "os_path_isfile (disk s) src"
          from destinations_shape[OF t] destinations_shape[OF a(5)] have "ip = item" by simp
          with a(3) have "p = src" by (simp add: src_def)
          with a(2) f show False by (simp add: isfile_iff)
        next
          assume "t \<in> set folder_paths"
          with folder_paths_shape[of t] destinations_shape[OF a(5)] show False by simp
        qed
      qed
      from a 1 2 show ?thesis by blast
    next
      case False
      with p F1 have m: "moved s' = moved s @ [src]" and ps: "p = src" by auto
      from F4 m have f: "os_path_isfile (disk s) src" by simp
      from srcfresh[OF f] F5[OF m] ps show ?thesis by (auto simp: src_def)
    qed
  qed
  have B': "\<And>p. length p = 2 \<Longrightarrow> os_path_isfile fs0 p \<Longrightarrow> p \<notin> set (moved s') \<Longrightarrow>
          lookup (disk s') p = lookup fs0 p"
  proof -
    fix p assume p: "length p = 2" "os_path_isfile fs0 p" "p \<notin> set (moved s')"
    with F1 have "p \<notin> set (moved s)" by auto
    from B[OF p(1,2) this] have old: "lookup (disk s) p = lookup fs0 p" .
    show "lookup (disk s') p = lookup fs0 p"
    proof (rule ccontr)
      assume "lookup (disk s') p \<noteq> lookup fs0 p"
      with old have "lookup (disk s') p \<noteq> lookup (disk s) p" by simp
      from F6[OF this] show False
      proof (elim disjE conjE)
        assume "p = src" "moved s' = moved s @ [src]"
        with p(3) show False by simp
      next
        assume "p \<in> set (destinations env item)"
        with destinations_shape[of p env item] p(1) show False by simp
      next
        assume "lookup (disk s) p = None"
        with old p(2) show False by (simp add: isfile_iff)
      qed
    qed
  qed
  have C': "\<And>p. p \<in> set (unmapped s') \<union> set (duplicates s') \<Longrightarrow> length p = 2 \<and> os_path_isfile fs0 p"
  proof -
    fix p assume p: "p \<in> set (unmapped s') \<union> set (duplicates s')"
    show "length p = 2 \<and> os_path_isfile fs0 p"
    proof (cases "p \<in> set (unmapped s) \<union> set (duplicates s)")
      case True
      then show ?thesis by (rule C)
    next
      case False
      with p F2 F3 have ps: "p = src" by auto
      from False p have "unmapped s' \<noteq> unmapped s \<or> duplicates s' \<noteq> duplicates s" by auto
      with F4 have "os_path_isfile (disk s) src" by blast
      from srcfresh[OF this] ps srclen show ?thesis by simp
    qed
  qed
  have D': "\<And>p. length p = 2 \<Longrightarrow> os_path_isfile (disk s') p \<Longrightarrow> os_path_isfile fs0 p"
  proof -
    fix p assume p: "length p = 2" "os_path_isfile (disk s') p"
    show "os_path_isfile fs0 p"
    proof (cases "lookup (disk s') p = lookup (disk s) p")
      case True
      with p(2) have "os_path_isfile (disk s) p" by (simp add: isfile_iff)
      from D[OF p(1) this] show ?thesis .
    next
      case False
      from F6[OF this] show ?thesis
      proof (elim disjE conjE)
        assume "p = src" "moved s' = moved s @ [src]"
        with F5 p(2) show ?thesis by (simp add: isfile_iff)
      next
        assume "p \<in> set (destinations env item)"
        with destinations_shape[of p env item] p(1) show ?thesis by simp
      next
        assume "lookup (disk s') p = Some Dir"
        with p(2) show ?thesis by (simp add: isfile_iff)
      qed
    qed
  qed
  show ?thesis unfolding model_inv_def
  proof (intro conjI)
    show "\<forall>p \<in> set (moved s'). os_path_isfile fs0 p \<and> lookup (disk s') p = None \<and>
          (\<exists>item. p = os_path_join CAMERAS_DIR item \<and>
             lower (splitext_ext item) \<in> set PHOTO_EXTENSIONS \<and>
             (\<exists>t \<in> set (destinations env item). lookup (disk s') t = lookup fs0 p))"
      by (intro ballI) (rule A')
    show "\<forall>p. length p = 2 \<and> os_path_isfile fs0 p \<and> p \<notin> set (moved s') \<longrightarrow>
          lookup (disk s') p = lookup fs0 p"
      by (intro allI impI, elim conjE, rule B', assumption+)
    show "\<forall>p \<in> set (unmapped s') \<union> set (duplicates s'). length p = 2 \<and> os_path_isfile fs0 p"
      by (intro ballI) (rule C')
    show "\<forall>p. length p = 2 \<and> os_path_isfile (disk s') p \<longrightarrow> os_path_isfile fs0 p"
      by (intro allI impI, elim conjE, rule D', assumption+)
  qed
qed

lemma model_inv_loop:
  "model_inv env fs0 s \<Longrightarrow> model_inv env fs0 (classify_loop env items s)"
proof (induction items arbitrary: s)
  case Nil
  then show ?case by simp
next
  case (Cons item items)
  have "model_inv env fs0 (classify_item env item s)"
    using Cons.prems classify_item_frame by (rule model_inv_step)
  with Cons.IH show ?case by (simp add: Let_def)
qed

lemma model_inv_run: "model_inv env fsys (classify_images env fsys)"
proof (cases "os_path_isdir fsys CAMERAS_DIR")
  case True
  then show ?thesis by (simp add: classify_images_def model_inv_loop model_inv_initial)
next
  case False
  have "model_inv env fsys (log_add CRITICAL RootMissing (initial_state fsys))"
    using model_inv_initial[of env fsys] by (simp add: model_inv_def log_add_def)
  with False show ?thesis by (simp add: classify_images_def)
qed

subsection \<open>Month folder names are not photo names\<close>

definition digits :: "char set" where
  "digits = set ''0123456789''"

lemma digit_char_digit: "digit_char n \<in> digits"
proof -
  have "n mod 10 < length ''0123456789''" by simp
  then have "''0123456789'' ! (n mod 10) \<in> set ''0123456789''" by (rule nth_mem)
  then show ?thesis by (simp only: digit_char_def digits_def)
qed

lemma str_nat_digits: "set (str_nat n) \<subseteq> digits"
proof (induction n rule: str_nat.induct)
  case (1 n)
  show ?case
  proof (cases "n < 10")
    case True
    then show ?thesis by (subst str_nat.simps) (simp add: digit_char_digit)
  next
    case False
    with 1 have "set (str_nat (n div 10)) \<subseteq> digits" by simp
    with False show ?thesis by (subst str_nat.simps) (simp add: digit_char_digit)
  qed
qed

lemma str_nat_nonempty: "str_nat n \<noteq> []"
  by (subst str_nat.simps) simp



lemma dot_not_digit: "CHR ''.'' \<notin> digits"
  by (simp add: digits_def)





subsection \<open>The night-shift rule and the name of the month folder\<close>

lemma digit_of_digit_char: "digit_of (digit_char n) = Some (n mod 10)"
proof -
  define k where "k = n mod 10"
  have "k < 10" by (simp add: k_def)
  then have "k = 0 \<or> k = 1 \<or> k = 2 \<or> k = 3 \<or> k = 4 \<or> k = 5 \<or> k = 6 \<or> k = 7 \<or> k = 8 \<or> k = 9"
    by arith
  then have "digit_of (''0123456789'' ! k) = Some k"
    by (elim disjE) (simp_all add: digit_of_def)
  then show ?thesis by (simp add: digit_char_def k_def)
qed

lemma read_decimal_snoc:
  "cs \<noteq> [] \<Longrightarrow> read_decimal cs = Some a \<Longrightarrow> digit_of c = Some d \<Longrightarrow>
   read_decimal (cs @ [c]) = Some (10 * a + d)"
  by (simp add: read_decimal_def)

lemma read_decimal_str_nat: "read_decimal (str_nat n) = Some n"
proof (induction n rule: str_nat.induct)
  case (1 n)
  show ?case
  proof (cases "n < 10")
    case True
    then show ?thesis
      by (simp add: str_nat_one_digit read_decimal_def digit_of_digit_char)
  next
    case False
    with 1 have ih: "read_decimal (str_nat (n div 10)) = Some (n div 10)" by simp
    from False have "str_nat n = str_nat (n div 10) @ [digit_char n]" by (simp add: str_nat_step)
    with read_decimal_snoc[OF str_nat_nonempty ih digit_of_digit_char, of n] show ?thesis by simp
  qed
qed

lemma read_decimal_fmt_02d: "read_decimal (fmt_02d n) = Some n"
proof (cases "n < 10")
  case True
  have z: "read_decimal [CHR ''0''] = Some 0" by (simp add: read_decimal_def digit_of_def)
  from True have "fmt_02d n = [CHR ''0''] @ [digit_char n]"
    by (simp add: fmt_02d_def str_nat_one_digit)
  with read_decimal_snoc[OF _ z digit_of_digit_char, of n] True show ?thesis by simp
next
  case False
  then show ?thesis by (simp add: fmt_02d_def read_decimal_str_nat)
qed

lemma length_str_nat_4: "n \<le> 9999 \<Longrightarrow> (length (str_nat n) = 4) = (1000 \<le> n)"
proof (cases "1000 \<le> n")
  case True
  assume "n \<le> 9999"
  with True show ?thesis by (simp add: length_str_nat_year)
next
  case False
  have "length (str_nat n) < 4"
  proof (cases "n < 10")
    case True
    then show ?thesis by (simp add: str_nat_one_digit)
  next
    case n10: False
    show ?thesis
    proof (cases "n < 100")
      case True
      with n10 show ?thesis by (simp add: str_nat_two_digits)
    next
      case n100: False
      with False have b: "10 \<le> n" "10 \<le> n div 10" "n div 10 < 100" by auto
      show ?thesis by (simp add: str_nat_step[OF b(1)] str_nat_two_digits[OF b(2,3)])
    qed
  qed
  with False show ?thesis by simp
qed

lemma dot_not_in_str_nat: "CHR ''.'' \<notin> set (str_nat n)"
  using str_nat_digits[of n] dot_not_digit by auto

lemma folder_texts:
  "folder_year_text (str_nat y @ CHR ''.'' # ms) = str_nat y"
  "folder_month_text (str_nat y @ CHR ''.'' # ms) = ms"
proof -
  have "\<And>c. c \<in> set (str_nat y) \<Longrightarrow> c \<noteq> CHR ''.''" using dot_not_in_str_nat[of y] by auto
  then show "folder_year_text (str_nat y @ CHR ''.'' # ms) = str_nat y"
    "folder_month_text (str_nat y @ CHR ''.'' # ms) = ms"
    by (simp_all add: folder_year_text_def folder_month_text_def takeWhile_append2 dropWhile_append2)
qed

lemma generar_nombre_carpeta_reads:
  "folder_year_text (generar_nombre_carpeta g) = str_nat (year g)"
  "folder_month_text (generar_nombre_carpeta g) = fmt_02d (month g)"
  by (simp_all add: generar_nombre_carpeta_def folder_texts)

text \<open>
  Claim C9: on the first day of a month before 08:00 the month folder is that of the
  date minus one day, the previous month (December of the previous year for January);
  every other date gives its own month; the name is the year, a dot and the month in two
  digits. The code does this for every date but two kinds. For the first of January of
  year 1 before 08:00 the subtraction raises \<^verbatim>\<open>OverflowError\<close> and there is no folder.
  For a year below 1000 the year is printed without padding, so the name is not of the
  form \<^verbatim>\<open>YYYY.MM\<close> that \<^verbatim>\<open>es_carpeta_yyyy_mm\<close> recognises. The name is read back with
  \<open>read_decimal\<close>, not compared with what the code prints.
\<close>

theorem night_shift_month_folder:
  assumes "valid_datetime f"
  shows "case carpeta_destino f of
           Inl e \<Rightarrow> e = OverflowError \<and> day f = 1 \<and> hour f < 8 \<and> month f = 1 \<and> year f = 1
         | Inr name \<Rightarrow>
             \<not> (day f = 1 \<and> hour f < 8 \<and> month f = 1 \<and> year f = 1) \<and>
             read_decimal (folder_year_text name) =
               Some (if day f = 1 \<and> hour f < 8 \<and> month f = 1 then year f - 1 else year f) \<and>
             read_decimal (folder_month_text name) =
               Some (if day f = 1 \<and> hour f < 8 then (if month f = 1 then 12 else month f - 1)
                     else month f) \<and>
             length (folder_month_text name) = 2 \<and>
             (length (folder_year_text name) = 4) =
               (1000 \<le> (if day f = 1 \<and> hour f < 8 \<and> month f = 1 then year f - 1 else year f))"
proof -
  have v: "1 \<le> year f" "year f \<le> 9999" "1 \<le> month f" "month f \<le> 12"
    using assms by (auto simp: valid_datetime_def)
  show ?thesis
  proof (cases "day f = 1 \<and> hour f < 8")
    case False
    then have "carpeta_destino f = Inr (generar_nombre_carpeta f)"
      by (auto simp: carpeta_destino_def ajustar_mes_por_horario_especial_def)
    with False v show ?thesis
      by (auto simp: generar_nombre_carpeta_reads read_decimal_str_nat read_decimal_fmt_02d
          length_fmt_02d length_str_nat_4)
  next
    case True
    then have d: "\<not> 1 < day f" by simp
    show ?thesis
    proof (cases "1 < month f")
      case m: True
      with True d have "carpeta_destino f =
          Inr (generar_nombre_carpeta (f\<lparr>month := month f - 1, day := days_in_month (year f) (month f - 1)\<rparr>))"
        by (simp add: carpeta_destino_def ajustar_mes_por_horario_especial_def minus_one_day_def)
      with True m v show ?thesis
        by (auto simp: generar_nombre_carpeta_reads read_decimal_str_nat read_decimal_fmt_02d
            length_fmt_02d length_str_nat_4)
    next
      case m: False
      with v have m1: "month f = 1" by simp
      show ?thesis
      proof (cases "1 < year f")
        case y: True
        with True d m have "carpeta_destino f =
            Inr (generar_nombre_carpeta (f\<lparr>year := year f - 1, month := 12, day := 31\<rparr>))"
          by (simp add: carpeta_destino_def ajustar_mes_por_horario_especial_def minus_one_day_def)
        with True m1 y v show ?thesis
          by (auto simp: generar_nombre_carpeta_reads read_decimal_str_nat read_decimal_fmt_02d
              length_fmt_02d length_str_nat_4)
      next
        case y: False
        with v have y1: "year f = 1" by simp
        from True d m y have "carpeta_destino f = Inl OverflowError"
          by (simp add: carpeta_destino_def ajustar_mes_por_horario_especial_def minus_one_day_def)
        with True m1 y1 show ?thesis by simp
      qed
    qed
  qed
qed

theorem night_shift_month_folder_witness:
  "valid_datetime \<lparr>year = 2024, month = 3, day = 1, hour = 7, minute = 59, second = 59\<rparr> \<and>
   carpeta_destino \<lparr>year = 2024, month = 3, day = 1, hour = 7, minute = 59, second = 59\<rparr> =
     Inr ''2024.02'' \<and>
   valid_datetime \<lparr>year = 2024, month = 1, day = 1, hour = 0, minute = 0, second = 0\<rparr> \<and>
   carpeta_destino \<lparr>year = 2024, month = 1, day = 1, hour = 0, minute = 0, second = 0\<rparr> =
     Inr ''2023.12'' \<and>
   valid_datetime \<lparr>year = 2024, month = 3, day = 1, hour = 8, minute = 0, second = 0\<rparr> \<and>
   carpeta_destino \<lparr>year = 2024, month = 3, day = 1, hour = 8, minute = 0, second = 0\<rparr> =
     Inr ''2024.03'' \<and>
   valid_datetime \<lparr>year = 2023, month = 11, day = 20, hour = 3, minute = 0, second = 0\<rparr> \<and>
   carpeta_destino \<lparr>year = 2023, month = 11, day = 20, hour = 3, minute = 0, second = 0\<rparr> =
     Inr ''2023.11'' \<and>
   read_decimal (folder_year_text ''2023.11'') = Some 2023 \<and>
   read_decimal (folder_month_text ''2023.11'') = Some 11 \<and>
   valid_datetime \<lparr>year = 1, month = 1, day = 1, hour = 3, minute = 0, second = 0\<rparr> \<and>
   carpeta_destino \<lparr>year = 1, month = 1, day = 1, hour = 3, minute = 0, second = 0\<rparr> =
     Inl OverflowError \<and>
   valid_datetime \<lparr>year = 999, month = 12, day = 15, hour = 10, minute = 0, second = 0\<rparr> \<and>
   carpeta_destino \<lparr>year = 999, month = 12, day = 15, hour = 10, minute = 0, second = 0\<rparr> =
     Inr ''999.12'' \<and>
   length (folder_year_text ''999.12'') = 3"
  using night_shift_month_folder[of "\<lparr>year = 2024, month = 3, day = 1, hour = 7, minute = 59, second = 59\<rparr>"]
    night_shift_month_folder[of "\<lparr>year = 2024, month = 1, day = 1, hour = 0, minute = 0, second = 0\<rparr>"]
    night_shift_month_folder[of "\<lparr>year = 2024, month = 3, day = 1, hour = 8, minute = 0, second = 0\<rparr>"]
    night_shift_month_folder[of "\<lparr>year = 2023, month = 11, day = 20, hour = 3, minute = 0, second = 0\<rparr>"]
    night_shift_month_folder[of "\<lparr>year = 1, month = 1, day = 1, hour = 3, minute = 0, second = 0\<rparr>"]
    night_shift_month_folder[of "\<lparr>year = 999, month = 12, day = 15, hour = 10, minute = 0, second = 0\<rparr>"]
  by (simp add: valid_datetime_def carpeta_destino_def ajustar_mes_por_horario_especial_def
      minus_one_day_def generar_nombre_carpeta_def days_in_month_def is_leap_def
      str_nat.simps fmt_02d_def digit_char_def read_decimal_def digit_of_def
      folder_year_text_def folder_month_text_def)

subsection \<open>One round of date\_sort\<close>


lemma relocation_of_simps:
  "relocation_of (lvl, MovidaFoto item d) = [(os_path_join (butlast d) item, os_path_join d item)]"
  "relocation_of (lvl, CarpetaCreada p) = []"
  "relocation_of (lvl, ErrorCrearCarpeta p e) = []"
  "relocation_of (lvl, DuplicadoDetectado p d) = []"
  "relocation_of (lvl, PermisoDenegado item) = []"
  "relocation_of (lvl, ErrorAlMover item d) = []"
  "relocation_of (lvl, Procesando p) = []"
  by (simp_all add: relocation_of_def)




lemma leer_fecha_records: "\<forall>e \<in> set (snd (leer_fecha_con_exiftool env p)). relocation_of e = []"
  by (auto simp: leer_fecha_con_exiftool_def Let_def relocation_of_def
      split: exiftool_output.splits option.splits)

lemma obtener_fecha_records: "\<forall>e \<in> set (snd (obtener_fecha_captura env p)). relocation_of e = []"
proof -
  obtain f r where l: "leer_fecha_con_exiftool env p = (f, r)"
    by (cases "leer_fecha_con_exiftool env p")
  with leer_fecha_records[of env p] have "\<forall>e \<in> set r. relocation_of e = []" by simp
  with l show ?thesis
    by (auto simp: obtener_fecha_captura_def relocation_of_def split: option.splits)
qed







subsection \<open>The invariant of date\_sort\<close>








subsection \<open>Concrete runs\<close>

text \<open>Rule sets that evaluate the scripts on a concrete file system.\<close>

lemmas fs_eval = lookup_def os_path_join_def os_path_exists_def os_path_isdir_def os_path_isfile_def
  os_listdir_def is_under_def os_walk_files_def fs_write_def fs_remove_def AList.delete_eq
  os_makedirs_exist_ok_def os_mkdir_def real_dst_def shutil_move_def os_path_getsize_def

lemmas text_eval = lower_def lower_char_def splitext_ext_def sanitize_folder_name_def
  invalid_folder_chars_def str_nat.simps fmt_02d_def digit_char_def

lemmas acc_eval = initial_state_def log_add_def sha256_of_file_logged_def sha256_of_file_readable
  sha256_of_file_def Let_def

lemmas model_eval = classify_images_def classify_item_def relocate_def is_duplicate_def
  get_camera_model_def CAMERAS_DIR_def PHOTO_EXTENSIONS_def MODEL_TO_FOLDER_def List.insert_def

lemmas date_eval = organizar_fotos_por_fecha_def organizar_camara_def organizar_item_def
  mover_foto_def ensure_destino_def report_move_def bump_ext_def CAMARAS_DIR_def
  PHOTO_EXTENSIONS_date_def obtener_fecha_captura_def leer_fecha_con_exiftool_def get_tag_def
  before_dot_def carpeta_destino_def ajustar_mes_por_horario_especial_def minus_one_day_def
  generar_nombre_carpeta_def days_in_month_def is_leap_def

text \<open>
  An environment in which every file carries the EXIF model \<^verbatim>\<open>WB30F\<close> and the operating
  system refuses nothing; the hash function is left open.
\<close>

definition wb30f_env :: "(bytes \<Rightarrow> digest) \<Rightarrow> model_env" where
  "wb30f_env H = \<lparr>mkdir_denied = (\<lambda>p. False), move_fault = (\<lambda>p. None), sha256 = H,
     exif_model = (\<lambda>p. Some ''WB30F'')\<rparr>"

text \<open>Two files with the same bytes, which the directory lists as \<^verbatim>\<open>b.jpg\<close>, \<^verbatim>\<open>a.jpg\<close>.\<close>

definition fs_pair :: filesystem where
  "fs_pair = [([''CAMERAS''], Dir), ([''CAMERAS'', ''b.jpg''], File [1, 2] True),
     ([''CAMERAS'', ''a.jpg''], File [1, 2] True)]"

text \<open>
  An environment in which every file carries the EXIF date 2024-05-10 12:00:00 and the
  operating system refuses nothing.
\<close>

definition may_env :: date_env where
  "may_env = \<lparr>mkdir_denied = (\<lambda>p. False), move_fault = (\<lambda>p. None),
     exiftool_j = (\<lambda>p. ExiftoolTags [(''DateTimeOriginal'', ''2024:05:10 12:00:00'')]),
     strptime = (\<lambda>s. if s = ''2024:05:10 12:00:00''
        then Some \<lparr>year = 2024, month = 5, day = 10, hour = 12, minute = 0, second = 0\<rparr> else None),
     stat_ctime = (\<lambda>p. None), stat_mtime = (\<lambda>p. None),
     now = \<lparr>year = 2026, month = 1, day = 2, hour = 3, minute = 4, second = 5\<rparr>\<rparr>"

text \<open>
  An environment in which \<^verbatim>\<open>exiftool\<close> exits with an error for every file, and every
  file was created on 2024-05-10 at 12:00:00.
\<close>

definition stat_env :: date_env where
  "stat_env = \<lparr>mkdir_denied = (\<lambda>p. False), move_fault = (\<lambda>p. None),
     exiftool_j = (\<lambda>p. ExiftoolFailed), strptime = (\<lambda>s. None),
     stat_ctime = (\<lambda>p. Some \<lparr>year = 2024, month = 5, day = 10, hour = 12, minute = 0, second = 0\<rparr>),
     stat_mtime = (\<lambda>p. None),
     now = \<lparr>year = 2026, month = 1, day = 2, hour = 3, minute = 4, second = 5\<rparr>\<rparr>"

text \<open>
  A camera folder with one photo whose name is taken in its month folder; \<open>c\<close> is what
  the file in the month folder holds.
\<close>

definition fs_conflict :: "bytes \<Rightarrow> filesystem" where
  "fs_conflict c = [([''CAMARAS''], Dir), ([''CAMARAS'', ''EOS''], Dir),
     ([''CAMARAS'', ''EOS'', ''IMG_1.JPG''], File [1] True),
     ([''CAMARAS'', ''EOS'', ''2024.05''], Dir),
     ([''CAMARAS'', ''EOS'', ''2024.05'', ''IMG_1.JPG''], File c True)]"


lemma run_fs_pair:
  "classify_images (wb30f_env H) fs_pair =
     \<lparr>disk = [([''CAMERAS''], Dir), ([''CAMERAS'', ''a.jpg''], File [1, 2] True),
              ([''CAMERAS'', ''Samsung WB30F''], Dir),
              ([''CAMERAS'', ''Samsung WB30F'', ''b.jpg''], File [1, 2] True)],
      unmapped = [], duplicates = [[''CAMERAS'', ''a.jpg'']], moved = [[''CAMERAS'', ''b.jpg'']],
      scanned_cameras = [''Samsung WB30F''], processed_count = 2, folders_report = [],
      logged = [(INFO, Movido ''b.jpg'' [''CAMERAS'', ''Samsung WB30F'']),
                (WARNING, Duplicado [''CAMERAS'', ''a.jpg''])],
      hashed = [[''CAMERAS'', ''b.jpg''], [''CAMERAS'', ''a.jpg''],
                [''CAMERAS'', ''Samsung WB30F'', ''b.jpg'']],
      raised = None\<rparr>"
  by (simp add: fs_pair_def wb30f_env_def model_eval acc_eval fs_eval text_eval)


lemma run_fs_conflict:
  "organizar_fotos_por_fecha may_env [''EOS''] (fs_conflict c) =
     \<lparr>disk = fs_conflict c,
      unmapped = [], duplicates = [[''CAMARAS'', ''EOS'', ''IMG_1.JPG'']], moved = [],
      scanned_cameras = [], processed_count = 0, folders_report = [],
      logged = [(INFO, Procesando [''CAMARAS'', ''EOS'']),
                (WARNING, DuplicadoDetectado [''CAMARAS'', ''EOS'', ''IMG_1.JPG'']
                   [''CAMARAS'', ''EOS'', ''2024.05''])],
      hashed = [], raised = None\<rparr>"
  by (simp add: fs_conflict_def may_env_def date_eval acc_eval fs_eval text_eval)



subsection \<open>A destination folder that cannot be created (model\_sort)\<close>

text \<open>
  The root holds a regular file that is named like the folder of the camera model, and
  two photos. The file has no extension, so the loop skips it.
\<close>

definition fs_blocked :: filesystem where
  "fs_blocked = [([''CAMERAS''], Dir), ([''CAMERAS'', ''Samsung WB30F''], File [] True),
     ([''CAMERAS'', ''a.jpg''], File [1] True), ([''CAMERAS'', ''b.jpg''], File [2] True)]"

text \<open>
  Claim C5 at this input: \<^verbatim>\<open>os.makedirs(dest, exist_ok=True)\<close> (line 298) stands outside
  every \<^verbatim>\<open>try\<close>; for \<^verbatim>\<open>a.jpg\<close> it raises \<^verbatim>\<open>FileExistsError\<close>, the exception leaves
  \<^verbatim>\<open>classify_images\<close>, and neither \<^verbatim>\<open>a.jpg\<close> nor \<^verbatim>\<open>b.jpg\<close> reaches any of the three
  lists of the report; \<^verbatim>\<open>b.jpg\<close> is never looked at.
\<close>

theorem makedirs_error_escapes:
  "raised (classify_images (wb30f_env H) fs_blocked) = Some FileExistsError \<and>
   moved (classify_images (wb30f_env H) fs_blocked) = [] \<and>
   unmapped (classify_images (wb30f_env H) fs_blocked) = [] \<and>
   duplicates (classify_images (wb30f_env H) fs_blocked) = [] \<and>
   processed_count (classify_images (wb30f_env H) fs_blocked) = 1 \<and>
   logged (classify_images (wb30f_env H) fs_blocked) = [(INFO, Omite ''Samsung WB30F'')] \<and>
   disk (classify_images (wb30f_env H) fs_blocked) = fs_blocked"
  by (simp add: fs_blocked_def wb30f_env_def model_eval acc_eval fs_eval text_eval)

subsection \<open>The earliest date that EXIF can carry (date\_sort)\<close>

text \<open>
  The photo \<^verbatim>\<open>a.jpg\<close> carries the EXIF date \<^verbatim>\<open>0001:01:01 00:00:00\<close>, which
  \<^verbatim>\<open>strptime\<close> accepts: it is the smallest \<^verbatim>\<open>datetime\<close>.
\<close>

definition minvalue_env :: date_env where
  "minvalue_env = \<lparr>mkdir_denied = (\<lambda>p. False), move_fault = (\<lambda>p. None),
     exiftool_j = (\<lambda>p. if p = [''CAMARAS'', ''EOS'', ''a.jpg'']
        then ExiftoolTags [(''DateTimeOriginal'', ''0001:01:01 00:00:00'')]
        else ExiftoolTags [(''DateTimeOriginal'', ''2024:05:10 12:00:00'')]),
     strptime = (\<lambda>s. if s = ''0001:01:01 00:00:00''
        then Some \<lparr>year = 1, month = 1, day = 1, hour = 0, minute = 0, second = 0\<rparr>
        else if s = ''2024:05:10 12:00:00''
        then Some \<lparr>year = 2024, month = 5, day = 10, hour = 12, minute = 0, second = 0\<rparr> else None),
     stat_ctime = (\<lambda>p. None), stat_mtime = (\<lambda>p. None),
     now = \<lparr>year = 2026, month = 1, day = 2, hour = 3, minute = 4, second = 5\<rparr>\<rparr>"

definition fs_minvalue :: filesystem where
  "fs_minvalue = [([''CAMARAS''], Dir), ([''CAMARAS'', ''EOS''], Dir),
     ([''CAMARAS'', ''EOS'', ''a.jpg''], File [1] True),
     ([''CAMARAS'', ''EOS'', ''b.jpg''], File [2] True)]"

text \<open>
  The lookup itself is total: it returns the parsed EXIF date (\<^verbatim>\<open>DateTimeOriginal\<close>, else
  \<^verbatim>\<open>CreateDate\<close>, else \<^verbatim>\<open>SubSecDateTimeOriginal\<close>), else the creation time, else the
  modification time, else the current time.
\<close>

lemma obtener_fecha_captura_total:
  "fst (obtener_fecha_captura env p) =
     (case fst (leer_fecha_con_exiftool env p) of
        Some fecha \<Rightarrow> fecha
      | None \<Rightarrow>
          (case stat_ctime env p of
             Some c \<Rightarrow> c
           | None \<Rightarrow> (case stat_mtime env p of Some m \<Rightarrow> m | None \<Rightarrow> now env)))"
  by (cases "leer_fecha_con_exiftool env p")
    (simp add: obtener_fecha_captura_def split: option.splits)

lemma leer_fecha_tags:
  "exiftool_j env p = ExiftoolTags tags \<Longrightarrow>
   fst (leer_fecha_con_exiftool env p) =
     (case get_tag tags ''DateTimeOriginal'' of
        Some v \<Rightarrow> strptime env (before_dot v)
      | None \<Rightarrow>
          (case get_tag tags ''CreateDate'' of
             Some v \<Rightarrow> strptime env (before_dot v)
           | None \<Rightarrow>
               (case get_tag tags ''SubSecDateTimeOriginal'' of
                  Some v \<Rightarrow> strptime env (before_dot v)
                | None \<Rightarrow> None)))"
  by (simp add: leer_fecha_con_exiftool_def Let_def split: option.splits)

text \<open>
  Claim C10 at this input: the lookup returns the date of the tag, and the adjustment of
  a first of the month before 08:00 subtracts a day from the smallest \<^verbatim>\<open>datetime\<close>:
  \<^verbatim>\<open>OverflowError\<close>. No month folder is computed for \<^verbatim>\<open>a.jpg\<close>, the exception leaves
  \<^verbatim>\<open>organizar_fotos_por_fecha\<close>, and \<^verbatim>\<open>b.jpg\<close> is never looked at.
\<close>

theorem min_date_has_no_month_folder:
  "obtener_fecha_captura minvalue_env [''CAMARAS'', ''EOS'', ''a.jpg''] =
     (\<lparr>year = 1, month = 1, day = 1, hour = 0, minute = 0, second = 0\<rparr>, []) \<and>
   carpeta_destino (fst (obtener_fecha_captura minvalue_env [''CAMARAS'', ''EOS'', ''a.jpg''])) =
     Inl OverflowError \<and>
   raised (organizar_fotos_por_fecha minvalue_env [''EOS''] fs_minvalue) = Some OverflowError \<and>
   disk (organizar_fotos_por_fecha minvalue_env [''EOS''] fs_minvalue) = fs_minvalue \<and>
   folders_report (organizar_fotos_por_fecha minvalue_env [''EOS''] fs_minvalue) = [] \<and>
   duplicates (organizar_fotos_por_fecha minvalue_env [''EOS''] fs_minvalue) = [] \<and>
   logged (organizar_fotos_por_fecha minvalue_env [''EOS''] fs_minvalue) =
     [(INFO, Procesando [''CAMARAS'', ''EOS''])]"
  by (simp add: fs_minvalue_def minvalue_env_def date_eval acc_eval fs_eval text_eval)

subsection \<open>A name that is taken in the month folder (date\_sort)\<close>

text \<open>
  Claim C4, as stated: equal content gives a duplicate, different content a conflict that
  is flagged apart from a duplicate. In the run below the file in the month folder holds
  other bytes than the source, and \<^verbatim>\<open>organizar_fotos_por_fecha\<close> reports the source in
  \<^verbatim>\<open>duplicates\<close> with the warning \<^verbatim>\<open>Duplicado detectado\<close>: the very report that it gives
  when the two files hold the same bytes.
\<close>

theorem name_collision_counterexample:
  "lookup (fs_conflict [2]) [''CAMARAS'', ''EOS'', ''IMG_1.JPG''] \<noteq>
     lookup (fs_conflict [2]) [''CAMARAS'', ''EOS'', ''2024.05'', ''IMG_1.JPG''] \<and>
   lookup (fs_conflict [1]) [''CAMARAS'', ''EOS'', ''IMG_1.JPG''] =
     lookup (fs_conflict [1]) [''CAMARAS'', ''EOS'', ''2024.05'', ''IMG_1.JPG''] \<and>
   duplicates (organizar_fotos_por_fecha may_env [''EOS''] (fs_conflict [2])) =
     [[''CAMARAS'', ''EOS'', ''IMG_1.JPG'']] \<and>
   duplicates (organizar_fotos_por_fecha may_env [''EOS''] (fs_conflict [2])) =
     duplicates (organizar_fotos_por_fecha may_env [''EOS''] (fs_conflict [1])) \<and>
   logged (organizar_fotos_por_fecha may_env [''EOS''] (fs_conflict [2])) =
     logged (organizar_fotos_por_fecha may_env [''EOS''] (fs_conflict [1])) \<and>
   folders_report (organizar_fotos_por_fecha may_env [''EOS''] (fs_conflict [2])) =
     folders_report (organizar_fotos_por_fecha may_env [''EOS''] (fs_conflict [1]))"
  by (simp add: run_fs_conflict) (simp add: fs_conflict_def lookup_def)

text \<open>
  Claim C4, amended: when the name of a photo is taken in its month folder, date\_sort
  does not look at the content of either file. Whatever the two files hold, the round
  leaves the file system as it is (so the source stays in place and both files are
  kept), appends the source to \<^verbatim>\<open>duplicates\<close> and logs, after whatever the date lookup
  logged, the warning \<^verbatim>\<open>Duplicado detectado\<close>; nothing is moved and no other outcome is
  recorded.
\<close>

theorem name_collision_skipped:
  assumes "\<not> os_path_isdir (disk s) (os_path_join cp item)"
    and "lower (splitext_ext item) \<in> set PHOTO_EXTENSIONS_date"
    and "obtener_fecha_captura env (os_path_join cp item) = (fecha, records)"
    and "carpeta_destino fecha = Inr carpeta"
    and "os_path_exists (disk s) (os_path_join cp carpeta)"
    and "os_path_exists (disk s) (os_path_join (os_path_join cp carpeta) item)"
  shows "organizar_item env cp item s =
           s\<lparr>logged := logged s @ records @
                 [(WARNING, DuplicadoDetectado (os_path_join cp item) (os_path_join cp carpeta))],
             duplicates := duplicates s @ [os_path_join cp item]\<rparr> \<and>
         disk (organizar_item env cp item s) = disk s \<and>
         relocations (organizar_item env cp item s) = relocations s \<and>
         folders_report (organizar_item env cp item s) = folders_report s"
proof -
  have q: "\<forall>e \<in> set records. relocation_of e = []"
    using obtener_fecha_records[of env "os_path_join cp item"] assms(3) by simp
  have "organizar_item env cp item s =
           s\<lparr>logged := logged s @ records @
                 [(WARNING, DuplicadoDetectado (os_path_join cp item) (os_path_join cp carpeta))],
             duplicates := duplicates s @ [os_path_join cp item]\<rparr>"
    using assms by (simp add: organizar_item_def Let_def ensure_destino_def log_add_def)
  moreover have "relocations (s\<lparr>logged := logged s @ records @
                 [(WARNING, DuplicadoDetectado (os_path_join cp item) (os_path_join cp carpeta))],
             duplicates := duplicates s @ [os_path_join cp item]\<rparr>) = relocations s"
    using q by (simp add: relocations_def relocation_of_simps)
  ultimately show ?thesis by simp
qed

theorem name_collision_skipped_witness:
  "\<not> os_path_isdir (fs_conflict [2]) [''CAMARAS'', ''EOS'', ''IMG_1.JPG''] \<and>
   lower (splitext_ext ''IMG_1.JPG'') \<in> set PHOTO_EXTENSIONS_date \<and>
   obtener_fecha_captura stat_env [''CAMARAS'', ''EOS'', ''IMG_1.JPG''] =
     (\<lparr>year = 2024, month = 5, day = 10, hour = 12, minute = 0, second = 0\<rparr>,
      [(WARNING, ExiftoolFallo [''CAMARAS'', ''EOS'', ''IMG_1.JPG''])]) \<and>
   carpeta_destino \<lparr>year = 2024, month = 5, day = 10, hour = 12, minute = 0, second = 0\<rparr> =
     Inr ''2024.05'' \<and>
   os_path_exists (fs_conflict [2]) [''CAMARAS'', ''EOS'', ''2024.05''] \<and>
   os_path_exists (fs_conflict [2]) [''CAMARAS'', ''EOS'', ''2024.05'', ''IMG_1.JPG''] \<and>
   disk (organizar_item stat_env [''CAMARAS'', ''EOS''] ''IMG_1.JPG'' (initial_state (fs_conflict [2]))) =
     fs_conflict [2] \<and>
   duplicates (organizar_item stat_env [''CAMARAS'', ''EOS''] ''IMG_1.JPG'' (initial_state (fs_conflict [2]))) =
     [[''CAMARAS'', ''EOS'', ''IMG_1.JPG'']] \<and>
   logged (organizar_item stat_env [''CAMARAS'', ''EOS''] ''IMG_1.JPG'' (initial_state (fs_conflict [2]))) =
     [(WARNING, ExiftoolFallo [''CAMARAS'', ''EOS'', ''IMG_1.JPG'']),
      (WARNING, DuplicadoDetectado [''CAMARAS'', ''EOS'', ''IMG_1.JPG''] [''CAMARAS'', ''EOS'', ''2024.05''])]"
proof -
  have 1: "\<not> os_path_isdir (disk (initial_state (fs_conflict [2]))) (os_path_join [''CAMARAS'', ''EOS''] ''IMG_1.JPG'')"
    by (simp add: initial_state_def fs_conflict_def fs_eval)
  have 2: "lower (splitext_ext ''IMG_1.JPG'') \<in> set PHOTO_EXTENSIONS_date"
    by (simp add: PHOTO_EXTENSIONS_date_def text_eval)
  have 3: "obtener_fecha_captura stat_env (os_path_join [''CAMARAS'', ''EOS''] ''IMG_1.JPG'') =
     (\<lparr>year = 2024, month = 5, day = 10, hour = 12, minute = 0, second = 0\<rparr>,
      [(WARNING, ExiftoolFallo [''CAMARAS'', ''EOS'', ''IMG_1.JPG''])])"
    by (simp add: stat_env_def obtener_fecha_captura_def leer_fecha_con_exiftool_def os_path_join_def)
  have 4: "carpeta_destino \<lparr>year = 2024, month = 5, day = 10, hour = 12, minute = 0, second = 0\<rparr> =
     Inr ''2024.05''"
    by (simp add: date_eval text_eval)
  have 5: "os_path_exists (disk (initial_state (fs_conflict [2]))) (os_path_join [''CAMARAS'', ''EOS''] ''2024.05'')"
    by (simp add: initial_state_def fs_conflict_def fs_eval)
  have 6: "os_path_exists (disk (initial_state (fs_conflict [2])))
      (os_path_join (os_path_join [''CAMARAS'', ''EOS''] ''2024.05'') ''IMG_1.JPG'')"
    by (simp add: initial_state_def fs_conflict_def fs_eval)
  from name_collision_skipped[OF 1 2 3 4 5 6] 1 2 3 4 5 6 show ?thesis
    by (simp add: initial_state_def os_path_join_def)
qed

subsection \<open>A file that cannot be hashed\<close>

definition fs_unreadable :: filesystem where
  "fs_unreadable = [([''CAMERAS''], Dir), ([''CAMERAS'', ''a.jpg''], File [1] False)]"

text \<open>
  Claim C3, as stated: a file whose fingerprint fails is never classified as a duplicate.
  In the run below the only photo cannot be read; \<^verbatim>\<open>is_duplicate\<close> answers \<^verbatim>\<open>True\<close> for it
  and \<^verbatim>\<open>classify_images\<close> reports it in \<^verbatim>\<open>duplicates\<close>, with the warning \<^verbatim>\<open>Duplicado\<close>.
\<close>

theorem unreadable_counterexample:
  "\<forall>H. sha256_of_file H fs_unreadable [''CAMERAS'', ''a.jpg''] default_chunk_size = None \<and>
       duplicates (classify_images (wb30f_env H) fs_unreadable) = [[''CAMERAS'', ''a.jpg'']] \<and>
       (WARNING, Duplicado [''CAMERAS'', ''a.jpg''])
          \<in> set (logged (classify_images (wb30f_env H) fs_unreadable))"
  by (simp add: fs_unreadable_def wb30f_env_def model_eval acc_eval fs_eval text_eval)

lemma sha256_of_file_cong:
  "lookup fs1 p = lookup fs2 q \<Longrightarrow> sha256_of_file H fs1 p n = sha256_of_file H fs2 q n"
  by (simp add: sha256_of_file_def)

lemma update_subset_insert: "set (AList.update k v al) \<subseteq> insert (k, v) (set al)"
  by (induction al) auto

lemma hash_paths_excludes:
  assumes "sha256_of_file H (disk s) p default_chunk_size = None"
    and "\<forall>(h, ps) \<in> set acc. p \<notin> set ps"
  shows "\<forall>(h, ps) \<in> set (fst (hash_paths H paths acc s)). p \<notin> set ps"
  using assms
proof (induction paths arbitrary: acc s)
  case Nil
  then show ?case by simp
next
  case (Cons q paths)
  obtain hq s1 where 1: "sha256_of_file_logged H q s = (hq, s1)"
    by (cases "sha256_of_file_logged H q s")
  note f = sha256_logged_fields[OF 1]
  have p1: "sha256_of_file H (disk s1) p default_chunk_size = None"
    using Cons.prems(1) f(1) by simp
  show ?case
  proof (cases hq)
    case None
    with 1 have "hash_paths H (q # paths) acc s = hash_paths H paths acc s1" by simp
    with Cons.IH[OF p1 Cons.prems(2)] show ?thesis by simp
  next
    case (Some h)
    define old where "old = (case map_of acc h of None \<Rightarrow> [] | Some ps \<Rightarrow> ps)"
    have r: "hash_paths H (q # paths) acc s = hash_paths H paths (AList.update h (old @ [q]) acc) s1"
      using 1 Some by (simp add: old_def)
    have "q \<noteq> p" using Some f(7) Cons.prems(1) by auto
    moreover have "p \<notin> set old"
    proof (cases "map_of acc h")
      case None
      then show ?thesis by (simp add: old_def)
    next
      case (Some ps)
      then have "(h, ps) \<in> set acc" by (rule map_of_SomeD)
      with Cons.prems(2) Some show ?thesis by (auto simp: old_def)
    qed
    ultimately have "\<forall>(h', ps) \<in> set (AList.update h (old @ [q]) acc). p \<notin> set ps"
      using Cons.prems(2) update_subset_insert[of h "old @ [q]" acc] by auto
    from Cons.IH[OF p1 this] show ?thesis unfolding r .
  qed
qed

text \<open>
  Claim C3, amended. A source file whose fingerprint cannot be computed is not moved: it
  stays at its path with what it held, and the failure is logged as an error. It is
  reported together with the duplicates, not apart from them: \<^verbatim>\<open>is_duplicate\<close> answers
  \<^verbatim>\<open>True\<close> for it, so model\_sort appends it to \<^verbatim>\<open>unmapped\<close> and to \<^verbatim>\<open>duplicates\<close> and
  logs the warning \<^verbatim>\<open>Duplicado\<close>, and raw\_sort appends it to \<^verbatim>\<open>duplicates\<close> and logs its
  warning for duplicates. In dup\_search such a file enters no group of paths with equal
  digest.
\<close>

theorem unhashable_file_stays:
  "(os_path_isfile (disk s) (os_path_join CAMERAS_DIR item) \<and>
    sha256_of_file (sha256 env) (disk s) (os_path_join CAMERAS_DIR item) default_chunk_size = None \<and>
    os_makedirs_exist_ok env (os_path_join CAMERAS_DIR (sanitize_folder_name folder)) (disk s) = Inr fsys \<longrightarrow>
      moved (relocate env item folder s) = moved s \<and>
      disk (relocate env item folder s) = fsys \<and>
      lookup fsys (os_path_join CAMERAS_DIR item) = lookup (disk s) (os_path_join CAMERAS_DIR item) \<and>
      unmapped (relocate env item folder s) = unmapped s @ [os_path_join CAMERAS_DIR item] \<and>
      duplicates (relocate env item folder s) = duplicates s @ [os_path_join CAMERAS_DIR item] \<and>
      logged (relocate env item folder s) =
        logged s @ [(ERROR, HashError (os_path_join CAMERAS_DIR item)),
                    (ERROR, HashImposible (os_path_join CAMERAS_DIR item)),
                    (WARNING, Duplicado (os_path_join CAMERAS_DIR item))]) \<and>
   (os_path_isfile (disk r) (os_path_join directorio rf) \<and>
    sha256_of_file (sha256 env) (disk r) (os_path_join directorio rf) default_chunk_size = None \<longrightarrow>
      disk (mover_raw env created_now directorio rf r) = disk r \<and>
      folders_report (mover_raw env created_now directorio rf r) = folders_report r \<and>
      duplicates (mover_raw env created_now directorio rf r) = duplicates r @ [os_path_join directorio rf] \<and>
      logged (mover_raw env created_now directorio rf r) =
        logged r @ [(ERROR, HashError (os_path_join directorio rf)),
                    (ERROR, HashImposible (os_path_join directorio rf)),
                    (WARNING, DuplicadoRaw (os_path_join directorio rf))]) \<and>
   (sha256_of_file H (disk d) p default_chunk_size = None \<longrightarrow>
      (\<forall>(h, ps) \<in> set (fst (hash_paths H paths [] d)). p \<notin> set ps))"
proof (intro conjI impI)
  define src where "src = os_path_join CAMERAS_DIR item"
  define dest where "dest = os_path_join CAMERAS_DIR (sanitize_folder_name folder)"
  assume a: "os_path_isfile (disk s) (os_path_join CAMERAS_DIR item) \<and>
    sha256_of_file (sha256 env) (disk s) (os_path_join CAMERAS_DIR item) default_chunk_size = None \<and>
    os_makedirs_exist_ok env (os_path_join CAMERAS_DIR (sanitize_folder_name folder)) (disk s) = Inr fsys"
  then have isf: "os_path_isfile (disk s) src"
    and none: "sha256_of_file (sha256 env) (disk s) src default_chunk_size = None"
    and mk: "os_makedirs_exist_ok env dest (disk s) = Inr fsys"
    by (simp_all add: src_def dest_def)
  have same: "lookup fsys src = lookup (disk s) src"
    using isf by (auto simp: makedirs_effect[OF mk] isfile_iff)
  have none': "sha256_of_file (sha256 env) fsys src default_chunk_size = None"
    using none sha256_of_file_cong[OF same] by simp
  have r: "relocate env item folder s =
     (log_add WARNING (Duplicado src)
        ((log_add ERROR (HashImposible src)
           (log_add ERROR (HashError src)
              (s\<lparr>scanned_cameras := List.insert folder (scanned_cameras s), disk := fsys,
                 hashed := hashed s @ [src]\<rparr>)))
         \<lparr>unmapped := unmapped s @ [src]\<rparr>))\<lparr>duplicates := duplicates s @ [src]\<rparr>"
    using mk none'
    by (simp add: relocate_def Let_def src_def[symmetric] dest_def[symmetric] is_duplicate_def
        sha256_of_file_logged_def log_add_def)
  show "moved (relocate env item folder s) = moved s"
    "disk (relocate env item folder s) = fsys"
    "unmapped (relocate env item folder s) = unmapped s @ [os_path_join CAMERAS_DIR item]"
    "duplicates (relocate env item folder s) = duplicates s @ [os_path_join CAMERAS_DIR item]"
    "logged (relocate env item folder s) =
        logged s @ [(ERROR, HashError (os_path_join CAMERAS_DIR item)),
                    (ERROR, HashImposible (os_path_join CAMERAS_DIR item)),
                    (WARNING, Duplicado (os_path_join CAMERAS_DIR item))]"
    unfolding r src_def[symmetric] by (simp_all add: log_add_def)
  show "lookup fsys (os_path_join CAMERAS_DIR item) = lookup (disk s) (os_path_join CAMERAS_DIR item)"
    using same by (simp add: src_def)
next
  define src where "src = os_path_join directorio rf"
  assume a: "os_path_isfile (disk r) (os_path_join directorio rf) \<and>
    sha256_of_file (sha256 env) (disk r) (os_path_join directorio rf) default_chunk_size = None"
  then obtain c rd where c: "lookup (disk r) src = Some (File c rd)"
    and none: "sha256_of_file (sha256 env) (disk r) src default_chunk_size = None"
    by (auto simp: src_def isfile_iff)
  have m: "mover_raw env created_now directorio rf r =
     log_add WARNING (DuplicadoRaw src)
       ((log_add ERROR (HashImposible src)
          (log_add ERROR (HashError src) (r\<lparr>hashed := hashed r @ [src]\<rparr>)))
        \<lparr>duplicates := duplicates r @ [src]\<rparr>)"
    using c none
    by (simp add: mover_raw_def Let_def src_def[symmetric] os_path_getsize_def is_duplicate_raw_def
        sha256_of_file_logged_def log_add_def)
  show "disk (mover_raw env created_now directorio rf r) = disk r"
    "folders_report (mover_raw env created_now directorio rf r) = folders_report r"
    "duplicates (mover_raw env created_now directorio rf r) = duplicates r @ [os_path_join directorio rf]"
    "logged (mover_raw env created_now directorio rf r) =
        logged r @ [(ERROR, HashError (os_path_join directorio rf)),
                    (ERROR, HashImposible (os_path_join directorio rf)),
                    (WARNING, DuplicadoRaw (os_path_join directorio rf))]"
    unfolding m src_def[symmetric] by (simp_all add: log_add_def)
next
  assume "sha256_of_file H (disk d) p default_chunk_size = None"
  then show "\<forall>(h, ps) \<in> set (fst (hash_paths H paths [] d)). p \<notin> set ps"
    by (rule hash_paths_excludes) simp
qed

definition fs_raw_unreadable :: filesystem where
  "fs_raw_unreadable = [([''CAMERAS''], Dir), ([''CAMERAS'', ''EOS''], Dir),
     ([''CAMERAS'', ''EOS'', ''2024.05''], Dir), ([''CAMERAS'', ''EOS'', ''2024.05'', ''Trip''], Dir),
     ([''CAMERAS'', ''EOS'', ''2024.05'', ''Trip'', ''IMG_1.CR2''], File [7] False),
     ([''CAMERAS'', ''EOS'', ''2024.05'', ''Trip'', ''RAW''], Dir)]"

theorem unhashable_file_stays_witness:
  "os_path_isfile fs_unreadable [''CAMERAS'', ''a.jpg''] \<and>
   sha256_of_file (\<lambda>bs. 0) fs_unreadable [''CAMERAS'', ''a.jpg''] default_chunk_size = None \<and>
   os_makedirs_exist_ok (wb30f_env (\<lambda>bs. 0)) [''CAMERAS'', ''Samsung WB30F''] fs_unreadable =
     Inr (fs_unreadable @ [([''CAMERAS'', ''Samsung WB30F''], Dir)]) \<and>
   moved (relocate (wb30f_env (\<lambda>bs. 0)) ''a.jpg'' ''Samsung WB30F'' (initial_state fs_unreadable)) = [] \<and>
   duplicates (relocate (wb30f_env (\<lambda>bs. 0)) ''a.jpg'' ''Samsung WB30F'' (initial_state fs_unreadable)) =
     [[''CAMERAS'', ''a.jpg'']] \<and>
   unmapped (relocate (wb30f_env (\<lambda>bs. 0)) ''a.jpg'' ''Samsung WB30F'' (initial_state fs_unreadable)) =
     [[''CAMERAS'', ''a.jpg'']] \<and>
   os_path_isfile fs_raw_unreadable [''CAMERAS'', ''EOS'', ''2024.05'', ''Trip'', ''IMG_1.CR2''] \<and>
   sha256_of_file (\<lambda>bs. 0) fs_raw_unreadable [''CAMERAS'', ''EOS'', ''2024.05'', ''Trip'', ''IMG_1.CR2'']
     default_chunk_size = None \<and>
   disk (mover_raw (wb30f_env (\<lambda>bs. 0)) False [''CAMERAS'', ''EOS'', ''2024.05'', ''Trip''] ''IMG_1.CR2''
          (initial_state fs_raw_unreadable)) = fs_raw_unreadable \<and>
   duplicates (mover_raw (wb30f_env (\<lambda>bs. 0)) False [''CAMERAS'', ''EOS'', ''2024.05'', ''Trip''] ''IMG_1.CR2''
          (initial_state fs_raw_unreadable)) = [[''CAMERAS'', ''EOS'', ''2024.05'', ''Trip'', ''IMG_1.CR2'']] \<and>
   fst (hash_paths (\<lambda>bs. 0) [[''CAMERAS'', ''a.jpg''], [''CAMERAS'', ''a.jpg'']] []
          (initial_state fs_unreadable)) = []"
proof -
  have 1: "os_path_isfile (disk (initial_state fs_unreadable)) (os_path_join CAMERAS_DIR ''a.jpg'')"
    by (simp add: initial_state_def fs_unreadable_def fs_eval CAMERAS_DIR_def)
  have 2: "sha256_of_file (sha256 (wb30f_env (\<lambda>bs. 0))) (disk (initial_state fs_unreadable))
      (os_path_join CAMERAS_DIR ''a.jpg'') default_chunk_size = None"
    by (simp add: initial_state_def fs_unreadable_def fs_eval CAMERAS_DIR_def sha256_of_file_def)
  have 3: "os_makedirs_exist_ok (wb30f_env (\<lambda>bs. 0))
      (os_path_join CAMERAS_DIR (sanitize_folder_name ''Samsung WB30F'')) (disk (initial_state fs_unreadable)) =
      Inr (fs_unreadable @ [([''CAMERAS'', ''Samsung WB30F''], Dir)])"
    by (simp add: initial_state_def fs_unreadable_def fs_eval CAMERAS_DIR_def text_eval wb30f_env_def)
  have 4: "os_path_isfile (disk (initial_state fs_raw_unreadable))
      (os_path_join [''CAMERAS'', ''EOS'', ''2024.05'', ''Trip''] ''IMG_1.CR2'')"
    by (simp add: initial_state_def fs_raw_unreadable_def fs_eval)
  have 5: "sha256_of_file (sha256 (wb30f_env (\<lambda>bs. 0))) (disk (initial_state fs_raw_unreadable))
      (os_path_join [''CAMERAS'', ''EOS'', ''2024.05'', ''Trip''] ''IMG_1.CR2'') default_chunk_size = None"
    by (simp add: initial_state_def fs_raw_unreadable_def fs_eval sha256_of_file_def)
  have 6: "sha256_of_file (\<lambda>bs. 0) (disk (initial_state fs_unreadable)) [''CAMERAS'', ''a.jpg'']
      default_chunk_size = None"
    by (simp add: initial_state_def fs_unreadable_def fs_eval sha256_of_file_def)
  have 7: "fst (hash_paths (\<lambda>bs. 0) [[''CAMERAS'', ''a.jpg''], [''CAMERAS'', ''a.jpg'']] []
          (initial_state fs_unreadable)) = []"
    by (simp add: initial_state_def fs_unreadable_def fs_eval sha256_of_file_def
        sha256_of_file_logged_def log_add_def)
  note w = unhashable_file_stays[of "initial_state fs_unreadable" "''a.jpg''" "wb30f_env (\<lambda>bs. 0)"
      "''Samsung WB30F''" "fs_unreadable @ [([''CAMERAS'', ''Samsung WB30F''], Dir)]"
      "initial_state fs_raw_unreadable" "[''CAMERAS'', ''EOS'', ''2024.05'', ''Trip'']" "''IMG_1.CR2''"
      False "\<lambda>bs. 0" "initial_state fs_unreadable" "[''CAMERAS'', ''a.jpg'']"
      "[[''CAMERAS'', ''a.jpg''], [''CAMERAS'', ''a.jpg'']]"]
  from w 1 2 3 4 5 6 7 show ?thesis
    by (simp add: initial_state_def os_path_join_def CAMERAS_DIR_def wb30f_env_def text_eval)
qed

subsection \<open>dup\_search hashes the buckets of two or more paths\<close>

lemma hash_paths_hashed: "hashed (snd (hash_paths H paths acc s)) = hashed s @ paths"
proof (induction paths arbitrary: acc s)
  case Nil
  then show ?case by simp
next
  case (Cons p paths)
  obtain h s1 where 1: "sha256_of_file_logged H p s = (h, s1)" by (cases "sha256_of_file_logged H p s")
  then have "hashed s1 = hashed s @ [p]"
    by (auto simp: sha256_of_file_logged_def Let_def log_add_def split: if_splits)
  with 1 Cons.IH show ?case by (cases h) simp_all
qed

lemma registrar_hashed: "hashed (snd (registrar cam name groups (report, s))) = hashed s"
  by (induction groups arbitrary: report s) (auto simp: log_add_def)

definition big :: "'k \<times> path list \<Rightarrow> bool" where
  "big b = (2 \<le> length (snd b))"

lemma big_pair: "big (k, ps) = (2 \<le> length ps)"
  by (simp add: big_def)

lemma resolver_nombre_hashed:
  "hashed (snd (resolver_nombre H cam name paths rs)) =
     hashed (snd rs) @ (if 2 \<le> length paths then paths else [])"
proof (cases "length paths < 2")
  case True
  then show ?thesis by (simp add: resolver_nombre_def)
next
  case False
  obtain g s1 where 1: "hash_paths H paths [] (snd rs) = (g, s1)" by (cases "hash_paths H paths [] (snd rs)")
  then have "hashed s1 = hashed (snd rs) @ paths" using hash_paths_hashed[of H paths "[]" "snd rs"] by simp
  with False 1 show ?thesis by (simp add: resolver_nombre_def registrar_hashed)
qed

lemma resolver_nombres_hashed:
  "hashed (snd (resolver_nombres H cam names rs)) =
     hashed (snd rs) @ concat (map snd (filter big names))"
proof (induction names arbitrary: rs)
  case Nil
  then show ?case by simp
next
  case (Cons np names)
  obtain name paths where np: "np = (name, paths)" by (cases np)
  have "hashed (snd (resolver_nombres H cam (np # names) rs)) =
      hashed (snd (resolver_nombre H cam name paths rs)) @ concat (map snd (filter big names))"
    by (simp add: np Cons.IH)
  then show ?case by (simp add: resolver_nombre_hashed np big_pair)
qed

lemma filter_big_tagged:
  "map snd (filter big (map (\<lambda>(name, paths). ((cam, name), paths)) names)) = map snd (filter big names)"
  by (induction names) (auto simp: big_pair)

lemma resolver_camaras_hashed:
  "hashed (snd (resolver_camaras H camera_to_names rs)) =
     hashed (snd rs) @ concat (map snd (filter big (buckets camera_to_names)))"
proof (induction camera_to_names arbitrary: rs)
  case Nil
  then show ?case by (simp add: buckets_def)
next
  case (Cons cn rest)
  obtain cam names where cn: "cn = (cam, names)" by (cases cn)
  have b: "buckets (cn # rest) = map (\<lambda>(name, paths). ((cam, name), paths)) names @ buckets rest"
    by (simp add: buckets_def cn)
  show ?case
    by (simp add: cn Cons.IH resolver_nombres_hashed b[unfolded cn] filter_big_tagged)
qed

text \<open>
  What the grouping keeps true of \<^verbatim>\<open>camera_to_names\<close>: no camera and, for a camera, no
  file name comes twice, and a path stands under its own file name and camera.
\<close>

definition grouped :: "(string \<times> name_dict) list \<Rightarrow> bool" where
  "grouped camera_to_names =
     (distinct (map fst camera_to_names) \<and>
      (\<forall>(cam, names) \<in> set camera_to_names.
         distinct (map fst names) \<and>
         (\<forall>(name, paths) \<in> set names.
            \<forall>p \<in> set paths. p \<noteq> [] \<and> last p = name \<and> camera_of (butlast p) = cam)))"

lemma update_subset_insert': "set (AList.update k v al) \<subseteq> insert (k, v) (set al)"
  by (induction al) auto

lemma grouped_add_path:
  assumes "grouped c2n"
  shows "grouped (add_path (camera_of folder) name (os_path_join folder name) c2n)"
proof -
  define cam where "cam = camera_of folder"
  define p where "p = os_path_join folder name"
  define names where "names = (case map_of c2n cam of None \<Rightarrow> [] | Some nd \<Rightarrow> nd)"
  define paths where "paths = (case map_of names name of None \<Rightarrow> [] | Some ps \<Rightarrow> ps)"
  have ap: "add_path cam name p c2n = AList.update cam (AList.update name (paths @ [p]) names) c2n"
    by (simp add: add_path_def names_def paths_def Let_def)
  have pshape: "p \<noteq> [] \<and> last p = name \<and> camera_of (butlast p) = cam"
    by (simp add: p_def os_path_join_def cam_def)
  have names_ok: "distinct (map fst names) \<and>
      (\<forall>(n, ps) \<in> set names. \<forall>q \<in> set ps. q \<noteq> [] \<and> last q = n \<and> camera_of (butlast q) = cam)"
  proof (cases "map_of c2n cam")
    case None
    then show ?thesis by (simp add: names_def)
  next
    case (Some nd)
    then have "(cam, nd) \<in> set c2n" by (rule map_of_SomeD)
    with assms Some show ?thesis unfolding grouped_def names_def by fastforce
  qed
  have paths_ok: "\<forall>q \<in> set paths. q \<noteq> [] \<and> last q = name \<and> camera_of (butlast q) = cam"
  proof (cases "map_of names name")
    case None
    then show ?thesis by (simp add: paths_def)
  next
    case (Some ps)
    then have "(name, ps) \<in> set names" by (rule map_of_SomeD)
    with names_ok Some show ?thesis unfolding paths_def by fastforce
  qed
  have new_names: "distinct (map fst (AList.update name (paths @ [p]) names)) \<and>
      (\<forall>(n, ps) \<in> set (AList.update name (paths @ [p]) names).
         \<forall>q \<in> set ps. q \<noteq> [] \<and> last q = n \<and> camera_of (butlast q) = cam)"
  proof
    show "distinct (map fst (AList.update name (paths @ [p]) names))"
      using names_ok by (simp add: distinct_update)
    show "\<forall>(n, ps) \<in> set (AList.update name (paths @ [p]) names).
         \<forall>q \<in> set ps. q \<noteq> [] \<and> last q = n \<and> camera_of (butlast q) = cam"
    proof (intro ballI)
      fix e assume "e \<in> set (AList.update name (paths @ [p]) names)"
      with update_subset_insert'[of name "paths @ [p]" names]
      have "e = (name, paths @ [p]) \<or> e \<in> set names" by auto
      then show "case e of (n, ps) \<Rightarrow> \<forall>q \<in> set ps. q \<noteq> [] \<and> last q = n \<and> camera_of (butlast q) = cam"
        using names_ok paths_ok pshape by auto
    qed
  qed
  have "grouped (AList.update cam (AList.update name (paths @ [p]) names) c2n)"
    unfolding grouped_def
  proof
    show "distinct (map fst (AList.update cam (AList.update name (paths @ [p]) names) c2n))"
      using assms by (simp add: grouped_def distinct_update)
    show "\<forall>(c, nd) \<in> set (AList.update cam (AList.update name (paths @ [p]) names) c2n).
         distinct (map fst nd) \<and>
         (\<forall>(n, ps) \<in> set nd. \<forall>q \<in> set ps. q \<noteq> [] \<and> last q = n \<and> camera_of (butlast q) = c)"
    proof (intro ballI)
      fix e assume "e \<in> set (AList.update cam (AList.update name (paths @ [p]) names) c2n)"
      with update_subset_insert'[of cam "AList.update name (paths @ [p]) names" c2n]
      have "e = (cam, AList.update name (paths @ [p]) names) \<or> e \<in> set c2n" by auto
      then show "case e of (c, nd) \<Rightarrow> distinct (map fst nd) \<and>
         (\<forall>(n, ps) \<in> set nd. \<forall>q \<in> set ps. q \<noteq> [] \<and> last q = n \<and> camera_of (butlast q) = c)"
      proof
        assume "e = (cam, AList.update name (paths @ [p]) names)"
        with new_names show ?thesis by simp
      next
        assume "e \<in> set c2n"
        with assms show ?thesis unfolding grouped_def by blast
      qed
    qed
  qed
  with ap show ?thesis unfolding cam_def p_def by simp
qed

lemma grouped_agrupar_nombres: "grouped c2n \<Longrightarrow> grouped (agrupar_nombres folder fnames c2n)"
  by (induction fnames arbitrary: c2n) (simp_all add: grouped_add_path)

lemma grouped_agrupar: "grouped c2n \<Longrightarrow> grouped (agrupar files_by_folder c2n)"
  by (induction files_by_folder arbitrary: c2n) (auto simp: grouped_agrupar_nombres)

lemma grouped_empty: "grouped []"
  by (simp add: grouped_def)

lemma bucket_member:
  "(k, ps) \<in> set (buckets c2n) \<longleftrightarrow> (\<exists>names. (fst k, names) \<in> set c2n \<and> (snd k, ps) \<in> set names)"
  by (cases k) (force simp: buckets_def)

lemma grouped_bucket_key:
  assumes "grouped c2n" and "(k, ps) \<in> set (buckets c2n)" and "p \<in> set ps"
  shows "k = (camera_of (butlast p), last p)"
proof -
  from assms(2) obtain names where n: "(fst k, names) \<in> set c2n" "(snd k, ps) \<in> set names"
    by (auto simp: bucket_member)
  with assms(1,3) have "last p = snd k \<and> camera_of (butlast p) = fst k"
    unfolding grouped_def by fastforce
  then show ?thesis by (cases k) simp
qed

lemma grouped_bucket_unique:
  assumes "grouped c2n" and "(k, ps) \<in> set (buckets c2n)" and "(k, ps') \<in> set (buckets c2n)"
  shows "ps = ps'"
proof -
  from assms(2) obtain names where n: "(fst k, names) \<in> set c2n" "(snd k, ps) \<in> set names"
    by (auto simp: bucket_member)
  from assms(3) obtain names' where n': "(fst k, names') \<in> set c2n" "(snd k, ps') \<in> set names'"
    by (auto simp: bucket_member)
  have d: "distinct (map fst c2n)" using assms(1) by (simp add: grouped_def)
  have "names = names'" using d n(1) n'(1) by (rule eq_key_imp_eq_value)
  moreover have "distinct (map fst names)" using assms(1) n(1) unfolding grouped_def by fastforce
  ultimately show ?thesis using n(2) n'(2) by (metis eq_key_imp_eq_value)
qed

definition fs_single :: filesystem where
  "fs_single = [([''CAMERAS''], Dir), ([''CAMERAS'', ''a.jpg''], File [1, 2] True)]"

text \<open>
  Claim C8, as stated: fingerprints are computed only for files that share their name with
  another file. \<^verbatim>\<open>is_duplicate\<close> of model\_sort (and of raw\_sort) hashes every source file
  it is asked about: below the tree holds one file, and its fingerprint is computed.
\<close>

theorem lone_file_hashed_counterexample:
  "\<forall>H. os_listdir fs_single CAMERAS_DIR = [''a.jpg''] \<and>
       os_walk_files fs_single [] = [[''CAMERAS'', ''a.jpg'']] \<and>
       hashed (classify_images (wb30f_env H) fs_single) = [[''CAMERAS'', ''a.jpg'']]"
  by (simp add: fs_single_def wb30f_env_def model_eval acc_eval fs_eval text_eval)

text \<open>
  Claim C8, amended: in dup\_search, \<^verbatim>\<open>detectar_duplicados\<close> computes fingerprints for
  exactly the paths of the buckets (camera and file name) that hold two or more paths, in
  the order of the buckets, each path once per occurrence; the single path of a bucket of
  size one is never hashed.
\<close>

theorem lazy_hashing_dup_search:
  "hashed (snd (detectar_duplicados H files_by_folder fsys)) =
     concat (map snd (filter big (buckets (agrupar files_by_folder [])))) \<and>
   (\<forall>(k, ps) \<in> set (buckets (agrupar files_by_folder [])).
      length ps < 2 \<longrightarrow>
      (\<forall>p \<in> set ps. p \<notin> set (hashed (snd (detectar_duplicados H files_by_folder fsys)))))"
proof
  define c2n where "c2n = agrupar files_by_folder []"
  have g: "grouped c2n" unfolding c2n_def using grouped_empty by (rule grouped_agrupar)
  show h: "hashed (snd (detectar_duplicados H files_by_folder fsys)) =
     concat (map snd (filter big (buckets (agrupar files_by_folder []))))"
    by (simp add: detectar_duplicados_def resolver_camaras_hashed initial_state_def)
  show "\<forall>(k, ps) \<in> set (buckets (agrupar files_by_folder [])).
      length ps < 2 \<longrightarrow>
      (\<forall>p \<in> set ps. p \<notin> set (hashed (snd (detectar_duplicados H files_by_folder fsys))))"
    unfolding h c2n_def[symmetric]
  proof (intro ballI)
    fix b assume b: "b \<in> set (buckets c2n)"
    obtain k ps where kp: "b = (k, ps)" by (cases b)
    have "length ps < 2 \<longrightarrow> (\<forall>p \<in> set ps. p \<notin> set (concat (map snd (filter big (buckets c2n)))))"
    proof (intro impI ballI notI)
      fix p assume small: "length ps < 2" and p: "p \<in> set ps"
        and "p \<in> set (concat (map snd (filter big (buckets c2n))))"
      then obtain k' ps' where b': "(k', ps') \<in> set (buckets c2n)" "big (k', ps')" "p \<in> set ps'"
        by auto
      have "k = (camera_of (butlast p), last p)"
        using g b p unfolding kp by (rule grouped_bucket_key)
      moreover have "k' = (camera_of (butlast p), last p)"
        using g b'(1,3) by (rule grouped_bucket_key)
      ultimately have "ps = ps'" using grouped_bucket_unique[OF g] b b'(1) unfolding kp by simp
      with small b'(2) show False by (simp add: big_pair)
    qed
    then show "case b of (k, ps) \<Rightarrow> length ps < 2 \<longrightarrow>
        (\<forall>p \<in> set ps. p \<notin> set (concat (map snd (filter big (buckets c2n)))))"
      by (simp add: kp)
  qed
qed

definition two_folders :: "(path \<times> string list) list" where
  "two_folders = [([''CAMERAS'', ''EOS''], [''a.jpg'', ''b.jpg'']),
     ([''CAMERAS'', ''EOS'', ''2024.05''], [''a.jpg''])]"

lemma buckets_two_folders:
  "buckets (agrupar two_folders []) =
     [((''EOS'', ''a.jpg''), [[''CAMERAS'', ''EOS'', ''a.jpg''], [''CAMERAS'', ''EOS'', ''2024.05'', ''a.jpg'']]),
      ((''EOS'', ''b.jpg''), [[''CAMERAS'', ''EOS'', ''b.jpg'']])]"
  by (simp add: two_folders_def buckets_def add_path_def camera_of_def CAMERAS_DIR_def
      os_path_join_def Let_def)

theorem lazy_hashing_dup_search_witness:
  "((''EOS'', ''b.jpg''), [[''CAMERAS'', ''EOS'', ''b.jpg'']]) \<in> set (buckets (agrupar two_folders [])) \<and>
   length [[''CAMERAS'', ''EOS'', ''b.jpg'']] < 2 \<and>
   [''CAMERAS'', ''EOS'', ''b.jpg''] \<notin> set (hashed (snd (detectar_duplicados (\<lambda>bs. 0) two_folders []))) \<and>
   hashed (snd (detectar_duplicados (\<lambda>bs. 0) two_folders [])) =
     [[''CAMERAS'', ''EOS'', ''a.jpg''], [''CAMERAS'', ''EOS'', ''2024.05'', ''a.jpg'']]"
  using lazy_hashing_dup_search[of "\<lambda>bs. 0" two_folders "[]"]
  by (simp add: buckets_two_folders big_def)

subsection \<open>At most one move for each content and destination folder (model\_sort)\<close>

lemma relocate_outcome:
  "(raised (relocate env item folder s) \<noteq> None \<and>
      duplicates (relocate env item folder s) = duplicates s \<and>
      moved (relocate env item folder s) = moved s) \<or>
   (raised (relocate env item folder s) = raised s \<and>
      duplicates (relocate env item folder s) = duplicates s @ [os_path_join CAMERAS_DIR item] \<and>
      moved (relocate env item folder s) = moved s) \<or>
   (raised (relocate env item folder s) = raised s \<and>
      duplicates (relocate env item folder s) = duplicates s \<and>
      moved (relocate env item folder s) = moved s @ [os_path_join CAMERAS_DIR item])"
proof -
  define src where "src = os_path_join CAMERAS_DIR item"
  define dest where "dest = os_path_join CAMERAS_DIR (sanitize_folder_name folder)"
  define s1 where "s1 = s\<lparr>scanned_cameras := List.insert folder (scanned_cameras s)\<rparr>"
  show ?thesis
  proof (cases "os_makedirs_exist_ok env dest (disk s1)")
    case (Inl e)
    then have "relocate env item folder s = s1\<lparr>raised := Some e\<rparr>"
      by (simp add: relocate_def Let_def s1_def dest_def)
    then show ?thesis by (simp add: s1_def)
  next
    case (Inr fsys)
    obtain b s2 where dup: "is_duplicate env dest src (s1\<lparr>disk := fsys\<rparr>) = (b, s2)"
      by (cases "is_duplicate env dest src (s1\<lparr>disk := fsys\<rparr>)")
    note df = is_duplicate_fields[OF dup]
    have d2: "moved s2 = moved s" "duplicates s2 = duplicates s" "raised s2 = raised s"
      using df by (simp_all add: s1_def)
    show ?thesis
    proof (cases b)
      case True
      then have "relocate env item folder s =
          (log_add WARNING (Duplicado src) s2)\<lparr>duplicates := duplicates s2 @ [src]\<rparr>"
        using Inr dup by (simp add: relocate_def Let_def s1_def dest_def src_def)
      then show ?thesis using d2 by (simp add: log_add_def src_def)
    next
      case False
      obtain r fsys' where mv: "shutil_move env src (os_path_join dest item) (disk s2) = (r, fsys')"
        by (cases "shutil_move env src (os_path_join dest item) (disk s2)")
      show ?thesis
      proof (cases r)
        case None
        then have "relocate env item folder s =
            log_add INFO (Movido item dest) (s2\<lparr>disk := fsys', moved := moved s2 @ [src]\<rparr>)"
          using Inr dup False mv by (simp add: relocate_def Let_def s1_def dest_def src_def)
        then show ?thesis using d2 by (simp add: log_add_def src_def)
      next
        case (Some e)
        then have "relocate env item folder s =
            (log_add ERROR (ErrorMoviendo item e) (s2\<lparr>disk := fsys'\<rparr>))\<lparr>duplicates := duplicates s2 @ [src]\<rparr>"
          using Inr dup False mv by (simp add: relocate_def Let_def s1_def dest_def src_def)
        then show ?thesis using d2 by (simp add: log_add_def src_def)
      qed
    qed
  qed
qed

lemma folders_nonempty: "map_of MODEL_TO_FOLDER model = Some folder \<Longrightarrow> folder \<noteq> []"
proof -
  have "\<forall>(m, f) \<in> set MODEL_TO_FOLDER. f \<noteq> []" by (simp add: MODEL_TO_FOLDER_def)
  moreover assume "map_of MODEL_TO_FOLDER model = Some folder"
  then have "(model, folder) \<in> set MODEL_TO_FOLDER" by (rule map_of_SomeD)
  ultimately show ?thesis by blast
qed

lemma classify_item_relocates:
  assumes "os_path_isfile (disk s) (os_path_join CAMERAS_DIR item)"
    and "lower (splitext_ext item) \<in> set PHOTO_EXTENSIONS"
    and "exif_model env (os_path_join CAMERAS_DIR item) = Some model"
    and "map_of MODEL_TO_FOLDER model = Some folder"
  shows "classify_item env item s = relocate env item folder (s\<lparr>processed_count := processed_count s + 1\<rparr>)"
  using assms folders_nonempty[OF assms(4)]
  by (simp add: classify_item_def Let_def get_camera_model_def)

lemma classify_item_duplicates_mono:
  "set (duplicates s) \<subseteq> set (duplicates (classify_item env item s))"
proof -
  define src where "src = os_path_join CAMERAS_DIR item"
  show ?thesis
  proof (cases "os_path_isfile (disk s) src \<and> lower (splitext_ext item) \<in> set PHOTO_EXTENSIONS")
    case False
    then have "duplicates (classify_item env item s) = duplicates s"
      by (auto simp: classify_item_def Let_def src_def log_add_def)
    then show ?thesis by simp
  next
    case True
    show ?thesis
    proof (cases "exif_model env src")
      case None
      with True have "duplicates (classify_item env item s) = duplicates s"
        by (simp add: classify_item_def Let_def src_def get_camera_model_def log_add_def)
      then show ?thesis by simp
    next
      case (Some model)
      show ?thesis
      proof (cases "map_of MODEL_TO_FOLDER model")
        case None
        with True Some have "duplicates (classify_item env item s) = duplicates s"
          by (simp add: classify_item_def Let_def src_def get_camera_model_def log_add_def)
        then show ?thesis by simp
      next
        case (Some folder)
        have "classify_item env item s = relocate env item folder (s\<lparr>processed_count := processed_count s + 1\<rparr>)"
          using True \<open>exif_model env src = Some model\<close> Some
          by (intro classify_item_relocates) (simp_all add: src_def)
        with relocate_outcome[of env item folder "s\<lparr>processed_count := processed_count s + 1\<rparr>"]
        show ?thesis by auto
      qed
    qed
  qed
qed

lemma classify_item_processed:
  assumes "os_path_isfile (disk s) (os_path_join CAMERAS_DIR item)"
    and "lower (splitext_ext item) \<in> set PHOTO_EXTENSIONS"
    and "dest_of env item \<noteq> None"
    and "raised (classify_item env item s) = None"
  shows "os_path_join CAMERAS_DIR item \<in> set (moved (classify_item env item s)) \<union>
           set (duplicates (classify_item env item s))"
proof -
  from assms(3) obtain model folder where
    m: "exif_model env (os_path_join CAMERAS_DIR item) = Some model" "map_of MODEL_TO_FOLDER model = Some folder"
    by (auto simp: dest_of_def split: option.splits)
  have r: "classify_item env item s = relocate env item folder (s\<lparr>processed_count := processed_count s + 1\<rparr>)"
    using assms(1,2) m by (rule classify_item_relocates)
  from relocate_outcome[of env item folder "s\<lparr>processed_count := processed_count s + 1\<rparr>"] assms(4)
  show ?thesis unfolding r by auto
qed

lemma classify_loop_mono:
  "set (moved s) \<subseteq> set (moved (classify_loop env items s)) \<and>
   set (duplicates s) \<subseteq> set (duplicates (classify_loop env items s))"
proof (induction items arbitrary: s)
  case Nil
  then show ?case by simp
next
  case (Cons item items)
  define s1 where "s1 = classify_item env item s"
  have "step_frame env item s s1" unfolding s1_def by (rule classify_item_frame)
  then have m: "set (moved s) \<subseteq> set (moved s1)" by (auto simp: step_frame_def Let_def)
  have d: "set (duplicates s) \<subseteq> set (duplicates s1)"
    unfolding s1_def by (rule classify_item_duplicates_mono)
  show ?case
  proof (cases "raised s1 \<noteq> None")
    case True
    then have "classify_loop env (item # items) s = s1" by (simp add: s1_def Let_def)
    with m d show ?thesis by simp
  next
    case False
    then have "classify_loop env (item # items) s = classify_loop env items s1" by (simp add: s1_def Let_def)
    with m d Cons.IH[of s1] show ?thesis by auto
  qed
qed

lemma classify_loop_processed:
  assumes "model_inv env fs0 s"
    and "raised (classify_loop env items s) = None"
    and "item \<in> set items"
    and "os_path_isfile fs0 (os_path_join CAMERAS_DIR item)"
    and "lower (splitext_ext item) \<in> set PHOTO_EXTENSIONS"
    and "dest_of env item \<noteq> None"
  shows "os_path_join CAMERAS_DIR item \<in> set (moved (classify_loop env items s)) \<union>
           set (duplicates (classify_loop env items s))"
  using assms(1,2,3)
proof (induction items arbitrary: s)
  case Nil
  then show ?case by simp
next
  case (Cons x items)
  define src where "src = os_path_join CAMERAS_DIR item"
  define s1 where "s1 = classify_item env x s"
  have inv1: "model_inv env fs0 s1"
    unfolding s1_def using Cons.prems(1) classify_item_frame by (rule model_inv_step)
  have nr: "raised s1 = None"
  proof (rule ccontr)
    assume "raised s1 \<noteq> None"
    then have "classify_loop env (x # items) s = s1" by (simp add: s1_def Let_def)
    with Cons.prems(2) \<open>raised s1 \<noteq> None\<close> show False by simp
  qed
  then have loop: "classify_loop env (x # items) s = classify_loop env items s1"
    by (simp add: s1_def Let_def)
  show ?case
  proof (cases "item \<in> set items")
    case True
    from Cons.IH[OF inv1 _ True] Cons.prems(2) show ?thesis unfolding loop by simp
  next
    case False
    with Cons.prems(3) have x: "x = item" by simp
    have "src \<in> set (moved s1) \<union> set (duplicates s1)"
    proof (cases "os_path_isfile (disk s) src")
      case True
      then show ?thesis
        unfolding s1_def x src_def using assms(5,6) nr[unfolded s1_def x]
        by (intro classify_item_processed)
    next
      case False
      have "src \<in> set (moved s)"
      proof (rule ccontr)
        assume "src \<notin> set (moved s)"
        with Cons.prems(1) assms(4) src_shape[of item] have "lookup (disk s) src = lookup fs0 src"
          unfolding model_inv_def src_def by blast
        with assms(4) False show False by (simp add: isfile_iff src_def)
      qed
      moreover have "step_frame env x s s1" unfolding s1_def by (rule classify_item_frame)
      then have "set (moved s) \<subseteq> set (moved s1)" by (auto simp: step_frame_def Let_def)
      ultimately show ?thesis by auto
    qed
    with classify_loop_mono[of s1 env items] show ?thesis unfolding loop src_def by auto
  qed
qed

lemma is_duplicate_true:
  assumes same: "lookup (disk s) t = lookup (disk s) src"
    and isf: "os_path_isfile (disk s) src"
    and under: "is_under dest t"
  shows "fst (is_duplicate env dest src s)"
proof -
  obtain h1 s1 where 1: "sha256_of_file_logged (sha256 env) src s = (h1, s1)"
    by (cases "sha256_of_file_logged (sha256 env) src s")
  note f = sha256_logged_fields[OF 1]
  show ?thesis
  proof (cases h1)
    case None
    with 1 show ?thesis by (simp add: is_duplicate_def)
  next
    case (Some h)
    have ht: "sha256_of_file (sha256 env) (disk s1) t default_chunk_size = Some h"
      using Some f(7) f(1) sha256_of_file_cong[OF same, of "sha256 env" default_chunk_size] by simp
    have "lookup (disk s1) t \<noteq> None" using isf same f(1) by (auto simp: isfile_iff)
    then have "t \<in> set (map fst (disk s1))" using lookup_in_keys by fastforce
    moreover have "os_path_isfile (disk s1) t" using isf same f(1) by (auto simp: isfile_iff)
    ultimately have "t \<in> set (os_walk_files (disk s1) dest)"
      using under by (simp add: os_walk_files_def)
    from scan_dest_finds[OF this ht]
    show ?thesis using 1 Some by (simp add: is_duplicate_def)
  qed
qed

lemma destinations_under:
  assumes "t \<in> set (destinations env item)"
  shows "\<exists>d. dest_of env item = Some d \<and> is_under d t"
proof (cases "exif_model env (os_path_join CAMERAS_DIR item)")
  case None
  with assms show ?thesis by (simp add: destinations_def)
next
  case (Some model)
  show ?thesis
  proof (cases "map_of MODEL_TO_FOLDER model")
    case None
    with Some assms show ?thesis by (simp add: destinations_def)
  next
    case (Some folder)
    with \<open>exif_model env (os_path_join CAMERAS_DIR item) = Some model\<close> assms show ?thesis
      by (auto simp: destinations_def dest_of_def Let_def is_under_def os_path_join_def)
  qed
qed

lemma classify_item_not_moved_again:
  assumes inv: "model_inv env fs0 s" and p: "p \<in> set (moved s)"
    and same: "lookup fs0 (os_path_join CAMERAS_DIR item) = lookup fs0 p"
    and dst: "dest_of env item = dest_of env (last p)"
  shows "moved (classify_item env item s) = moved s"
proof -
  define src where "src = os_path_join CAMERAS_DIR item"
  show ?thesis
  proof (cases "os_path_isfile (disk s) src \<and> lower (splitext_ext item) \<in> set PHOTO_EXTENSIONS")
    case False
    then show ?thesis by (auto simp: classify_item_def Let_def src_def log_add_def)
  next
    case True
    from inv p obtain ip t where
      a: "os_path_isfile fs0 p" "lookup (disk s) p = None" "p = os_path_join CAMERAS_DIR ip"
         "t \<in> set (destinations env ip)" "lookup (disk s) t = lookup fs0 p"
      unfolding model_inv_def by blast
    have lp: "last p = ip" using src_shape a(3) by simp
    from destinations_under[OF a(4)] obtain d where d: "dest_of env ip = Some d" "is_under d t" by blast
    with dst lp have dsrc: "dest_of env item = Some d" by simp
    then obtain model folder where
      m: "exif_model env src = Some model" "map_of MODEL_TO_FOLDER model = Some folder"
         "d = os_path_join CAMERAS_DIR (sanitize_folder_name folder)"
      by (auto simp: dest_of_def src_def split: option.splits)
    have r: "classify_item env item s = relocate env item folder (s\<lparr>processed_count := processed_count s + 1\<rparr>)"
      using True m(1,2) by (intro classify_item_relocates) (simp_all add: src_def)
    have srcfs0: "os_path_isfile fs0 src" using inv True src_shape[of item]
      unfolding model_inv_def src_def by blast
    have "src \<notin> set (moved s)"
    proof
      assume "src \<in> set (moved s)"
      with inv have "lookup (disk s) src = None" unfolding model_inv_def by blast
      with True show False by (simp add: isfile_iff)
    qed
    with inv srcfs0 src_shape[of item] have "lookup (disk s) src = lookup fs0 src"
      unfolding model_inv_def src_def by blast
    with same a(5) have eq: "lookup (disk s) t = lookup (disk s) src" by (simp add: src_def)
    define s0 where "s0 = s\<lparr>processed_count := processed_count s + 1\<rparr>"
    define s1 where "s1 = s0\<lparr>scanned_cameras := List.insert folder (scanned_cameras s0)\<rparr>"
    have "moved (relocate env item folder s0) = moved s0"
    proof (cases "os_makedirs_exist_ok env d (disk s1)")
      case (Inl e)
      then have "relocate env item folder s0 = s1\<lparr>raised := Some e\<rparr>"
        by (simp add: relocate_def Let_def s1_def m(3))
      then show ?thesis by (simp add: s1_def)
    next
      case (Inr fsys)
      then have mk: "os_makedirs_exist_ok env d (disk s) = Inr fsys" by (simp add: s1_def s0_def)
      note mke = makedirs_effect[OF mk]
      have td: "t \<noteq> d" using d(2) by (auto simp: is_under_def)
      have 1: "lookup fsys t = lookup (disk s) t" using td by (simp add: mke)
      have 2: "lookup fsys src = lookup (disk s) src" using True by (auto simp: mke isfile_iff)
      have "fst (is_duplicate env d src (s1\<lparr>disk := fsys\<rparr>))"
        using d(2) 1 2 eq True by (intro is_duplicate_true) (simp_all add: isfile_iff)
      then obtain s2 where dup: "is_duplicate env d src (s1\<lparr>disk := fsys\<rparr>) = (True, s2)"
        by (cases "is_duplicate env d src (s1\<lparr>disk := fsys\<rparr>)") auto
      note df = is_duplicate_fields[OF dup]
      have "relocate env item folder s0 =
          (log_add WARNING (Duplicado src) s2)\<lparr>duplicates := duplicates s2 @ [src]\<rparr>"
        using Inr dup by (simp add: relocate_def Let_def s1_def[symmetric] m(3) src_def)
      then show ?thesis using df(2) by (simp add: log_add_def s1_def)
    qed
    then show ?thesis unfolding r s0_def by simp
  qed
qed

lemma at_most_one_step:
  assumes inv: "model_inv env fs0 s" and u: "at_most_one env fs0 s"
  shows "at_most_one env fs0 (classify_item env item s)"
proof -
  define src where "src = os_path_join CAMERAS_DIR item"
  define s' where "s' = classify_item env item s"
  have "step_frame env item s s'" unfolding s'_def by (rule classify_item_frame)
  then have F1: "moved s' = moved s \<or> moved s' = moved s @ [src]"
    by (simp add: step_frame_def Let_def src_def)
  show ?thesis
  proof (cases "moved s' = moved s")
    case True
    with u show ?thesis unfolding s'_def[symmetric] by (simp add: at_most_one_def)
  next
    case False
    with F1 have m: "moved s' = moved s @ [src]" by simp
    have new: "\<And>p. p \<in> set (moved s) \<Longrightarrow> dest_of env (last p) = dest_of env item \<Longrightarrow>
        lookup fs0 p \<noteq> lookup fs0 src"
    proof
      fix p assume p: "p \<in> set (moved s)" "dest_of env (last p) = dest_of env item"
        and "lookup fs0 p = lookup fs0 src"
      then have "moved (classify_item env item s) = moved s"
        using inv by (intro classify_item_not_moved_again[of env fs0 s p]) (simp_all add: src_def)
      with False show False by (simp add: s'_def)
    qed
    have ls: "last src = item" using src_shape by (simp add: src_def)
    show ?thesis unfolding s'_def[symmetric] at_most_one_def m
    proof (intro ballI impI)
      fix p q assume pq: "p \<in> set (moved s @ [src])" "q \<in> set (moved s @ [src])"
        "p \<noteq> q \<and> dest_of env (last p) = dest_of env (last q)"
      show "lookup fs0 p \<noteq> lookup fs0 q"
      proof (cases "p = src")
        case True
        with pq have "q \<in> set (moved s)" by auto
        from new[OF this] pq(3) True ls show ?thesis by auto
      next
        case pn: False
        with pq(1) have pm: "p \<in> set (moved s)" by simp
        show ?thesis
        proof (cases "q = src")
          case True
          from new[OF pm] pq(3) True ls show ?thesis by auto
        next
          case False
          with pq(2) have "q \<in> set (moved s)" by simp
          with u pm pq(3) show ?thesis unfolding at_most_one_def by blast
        qed
      qed
    qed
  qed
qed

lemma at_most_one_loop:
  "model_inv env fs0 s \<Longrightarrow> at_most_one env fs0 s \<Longrightarrow> at_most_one env fs0 (classify_loop env items s)"
proof (induction items arbitrary: s)
  case Nil
  then show ?case by simp
next
  case (Cons item items)
  have i: "model_inv env fs0 (classify_item env item s)"
    using Cons.prems(1) classify_item_frame by (rule model_inv_step)
  have u: "at_most_one env fs0 (classify_item env item s)"
    using Cons.prems by (rule at_most_one_step)
  from Cons.IH[OF i u] u show ?case by (simp add: Let_def)
qed

lemma at_most_one_run: "at_most_one env fsys (classify_images env fsys)"
proof (cases "os_path_isdir fsys CAMERAS_DIR")
  case True
  have "at_most_one env fsys (initial_state fsys)" by (simp add: at_most_one_def initial_state_def)
  with True show ?thesis by (simp add: classify_images_def at_most_one_loop model_inv_initial)
next
  case False
  then show ?thesis by (simp add: classify_images_def at_most_one_def log_add_def initial_state_def)
qed

text \<open>
  Claim C7, as stated: of the files with the same content, the one moved is the one with
  the lexicographically smallest full path, and the others are skipped without touching
  the destination directory. \<^verbatim>\<open>classify_images\<close> takes the files in the order of
  \<^verbatim>\<open>os.listdir\<close> and sorts nothing. In the run below the directory lists \<^verbatim>\<open>b.jpg\<close> before
  \<^verbatim>\<open>a.jpg\<close>, both with the same bytes: \<^verbatim>\<open>b.jpg\<close> is moved, although the path of
  \<^verbatim>\<open>a.jpg\<close> is smaller, and \<^verbatim>\<open>a.jpg\<close> is found to be a duplicate by hashing the file
  in the destination folder.
\<close>

theorem smallest_path_counterexample:
  "\<forall>H. os_listdir fs_pair CAMERAS_DIR = [''b.jpg'', ''a.jpg''] \<and>
     lookup fs_pair [''CAMERAS'', ''a.jpg''] = lookup fs_pair [''CAMERAS'', ''b.jpg''] \<and>
     [''CAMERAS'', ''a.jpg''] < [''CAMERAS'', ''b.jpg''] \<and>
     moved (classify_images (wb30f_env H) fs_pair) = [[''CAMERAS'', ''b.jpg'']] \<and>
     duplicates (classify_images (wb30f_env H) fs_pair) = [[''CAMERAS'', ''a.jpg'']] \<and>
     [''CAMERAS'', ''Samsung WB30F'', ''b.jpg''] \<in> set (hashed (classify_images (wb30f_env H) fs_pair))"
  apply (simp only: run_fs_pair)
  apply (simp add: fs_pair_def fs_eval model_eval)
  done

subsection \<open>The first listed file of a fingerprint is the one moved (model\_sort)\<close>

lemma shutil_move_clean:
  assumes "move_fault env src = None \<or> move_fault env src = Some None"
    and "shutil_move env src dst fsys = (Some e, fsys')"
  shows "fsys' = fsys"
  using assms by (auto simp: shutil_move_def Let_def split: option.splits node.splits if_splits)

lemma relocate_writes:
  assumes nl: "move_fault env (os_path_join CAMERAS_DIR item) = None \<or>
      move_fault env (os_path_join CAMERAS_DIR item) = Some None"
    and q: "3 \<le> length q"
  shows "lookup (disk (relocate env item folder s)) q = lookup (disk s) q \<or>
     (moved (relocate env item folder s) = moved s @ [os_path_join CAMERAS_DIR item] \<and>
      lookup (disk (relocate env item folder s)) q = lookup (disk s) (os_path_join CAMERAS_DIR item) \<and>
      is_under (os_path_join CAMERAS_DIR (sanitize_folder_name folder)) q)"
proof -
  define src where "src = os_path_join CAMERAS_DIR item"
  define dest where "dest = os_path_join CAMERAS_DIR (sanitize_folder_name folder)"
  define s1 where "s1 = s\<lparr>scanned_cameras := List.insert folder (scanned_cameras s)\<rparr>"
  have ld: "length dest = 2" "length src = 2" by (simp_all add: dest_def src_def os_path_join_def CAMERAS_DIR_def)
  have goal: "lookup (disk (relocate env item folder s)) q = lookup (disk s) q \<or>
     (moved (relocate env item folder s) = moved s @ [src] \<and>
      lookup (disk (relocate env item folder s)) q = lookup (disk s) src \<and> is_under dest q)"
  proof (cases "os_makedirs_exist_ok env dest (disk s1)")
    case (Inl e)
    then have "relocate env item folder s = s1\<lparr>raised := Some e\<rparr>"
      by (simp add: relocate_def Let_def s1_def dest_def)
    then show ?thesis by (simp add: s1_def)
  next
    case (Inr fsys)
    then have mk: "os_makedirs_exist_ok env dest (disk s) = Inr fsys" by (simp add: s1_def)
    note mke = makedirs_effect[OF mk]
    have fq: "lookup fsys q = lookup (disk s) q" using q ld by (auto simp: mke)
    obtain b s2 where dup: "is_duplicate env dest src (s1\<lparr>disk := fsys\<rparr>) = (b, s2)"
      by (cases "is_duplicate env dest src (s1\<lparr>disk := fsys\<rparr>)")
    note df = is_duplicate_fields[OF dup]
    have d2: "disk s2 = fsys" "moved s2 = moved s" using df by (simp_all add: s1_def)
    show ?thesis
    proof (cases b)
      case True
      then have "relocate env item folder s =
          (log_add WARNING (Duplicado src) s2)\<lparr>duplicates := duplicates s2 @ [src]\<rparr>"
        using Inr dup by (simp add: relocate_def Let_def s1_def[symmetric] dest_def src_def)
      then show ?thesis using d2 fq by (simp add: log_add_def)
    next
      case False
      obtain r fsys' where mv: "shutil_move env src (os_path_join dest item) fsys = (r, fsys')"
        by (cases "shutil_move env src (os_path_join dest item) fsys")
      show ?thesis
      proof (cases r)
        case None
        then have rel: "relocate env item folder s =
            log_add INFO (Movido item dest) (s2\<lparr>disk := fsys', moved := moved s2 @ [src]\<rparr>)"
          using Inr dup False mv d2
          by (simp add: relocate_def Let_def s1_def[symmetric] dest_def[symmetric] src_def[symmetric])
        from mv None have "shutil_move env src (os_path_join dest item) fsys = (None, fsys')" by simp
        from shutil_move_ok[OF this] obtain c rd where
          ok: "lookup fsys src = Some (File c rd)"
            "\<forall>x. lookup fsys' x =
              (if x = real_dst fsys src (os_path_join dest item) then Some (File c rd)
               else if x = src then None else lookup fsys x)"
          by blast
        have ssrc: "lookup (disk s) src = Some (File c rd)"
          using ok(1) by (auto simp: mke split: if_splits)
        have under: "is_under dest (real_dst fsys src (os_path_join dest item))"
          using real_dst_cases[of fsys CAMERAS_DIR item "os_path_join dest item"]
          by (auto simp: src_def is_under_def os_path_join_def)
        have qs: "q \<noteq> src" using q ld by auto
        show ?thesis
        proof (cases "q = real_dst fsys src (os_path_join dest item)")
          case True
          with ok(2) ssrc under d2 show ?thesis unfolding rel by (simp add: log_add_def)
        next
          case False
          with ok(2) qs fq show ?thesis unfolding rel by (simp add: log_add_def)
        qed
      next
        case (Some e)
        with mv have m: "shutil_move env src (os_path_join dest item) fsys = (Some e, fsys')" by simp
        from shutil_move_clean[OF nl[folded src_def] m] have same: "fsys' = fsys" .
        have "relocate env item folder s =
            (log_add ERROR (ErrorMoviendo item e) (s2\<lparr>disk := fsys'\<rparr>))\<lparr>duplicates := duplicates s2 @ [src]\<rparr>"
          using Inr dup False m d2
          by (simp add: relocate_def Let_def s1_def[symmetric] dest_def[symmetric] src_def[symmetric])
        then show ?thesis using same fq by (simp add: log_add_def)
      qed
    qed
  qed
  then show ?thesis by (simp add: src_def dest_def)
qed

lemma classify_item_writes:
  assumes nl: "move_fault env (os_path_join CAMERAS_DIR item) = None \<or>
      move_fault env (os_path_join CAMERAS_DIR item) = Some None"
    and q: "3 \<le> length q"
  shows "lookup (disk (classify_item env item s)) q = lookup (disk s) q \<or>
     (moved (classify_item env item s) = moved s @ [os_path_join CAMERAS_DIR item] \<and>
      lookup (disk (classify_item env item s)) q = lookup (disk s) (os_path_join CAMERAS_DIR item) \<and>
      (\<exists>d. dest_of env item = Some d \<and> is_under d q))"
proof -
  define src where "src = os_path_join CAMERAS_DIR item"
  show ?thesis
  proof (cases "os_path_isfile (disk s) src \<and> lower (splitext_ext item) \<in> set PHOTO_EXTENSIONS")
    case False
    then have "disk (classify_item env item s) = disk s"
      by (auto simp: classify_item_def Let_def src_def log_add_def)
    then show ?thesis by simp
  next
    case True
    show ?thesis
    proof (cases "exif_model env src")
      case None
      with True have "disk (classify_item env item s) = disk s"
        by (simp add: classify_item_def Let_def src_def get_camera_model_def log_add_def)
      then show ?thesis by simp
    next
      case (Some model)
      show ?thesis
      proof (cases "map_of MODEL_TO_FOLDER model")
        case None
        with True Some have "disk (classify_item env item s) = disk s"
          by (simp add: classify_item_def Let_def src_def get_camera_model_def log_add_def)
        then show ?thesis by simp
      next
        case (Some folder)
        have r: "classify_item env item s = relocate env item folder (s\<lparr>processed_count := processed_count s + 1\<rparr>)"
          using True \<open>exif_model env src = Some model\<close> Some
          by (intro classify_item_relocates) (simp_all add: src_def)
        have d: "dest_of env item = Some (os_path_join CAMERAS_DIR (sanitize_folder_name folder))"
          using \<open>exif_model env src = Some model\<close> Some by (simp add: dest_of_def src_def)
        from relocate_writes[OF nl q, of folder "s\<lparr>processed_count := processed_count s + 1\<rparr>"]
        show ?thesis unfolding r d by auto
      qed
    qed
  qed
qed

lemma scan_dest_none:
  assumes "\<forall>t \<in> set files. sha256_of_file H (disk s) t default_chunk_size \<noteq> Some h"
  shows "\<not> fst (scan_dest H h files s)"
  using assms
proof (induction files arbitrary: s)
  case Nil
  then show ?case by simp
next
  case (Cons t files)
  obtain h1 s1 where l: "sha256_of_file_logged H t s = (h1, s1)"
    by (cases "sha256_of_file_logged H t s")
  note f = sha256_logged_fields[OF l]
  from Cons.prems f(7) have ne: "h1 \<noteq> Some h" by simp
  have "\<forall>t \<in> set files. sha256_of_file H (disk s1) t default_chunk_size \<noteq> Some h"
    using Cons.prems f(1) by simp
  from Cons.IH[OF this] l ne show ?case by simp
qed

lemma is_duplicate_false:
  assumes src: "lookup (disk s) src = Some (File c True)"
    and none: "\<forall>t \<in> set (os_walk_files (disk s) dest).
      sha256_of_file (sha256 env) (disk s) t default_chunk_size \<noteq> Some (sha256 env c)"
  shows "\<not> fst (is_duplicate env dest src s)"
proof -
  obtain h1 s1 where l: "sha256_of_file_logged (sha256 env) src s = (h1, s1)"
    by (cases "sha256_of_file_logged (sha256 env) src s")
  note f = sha256_logged_fields[OF l]
  have h1: "h1 = Some (sha256 env c)" using f(7) src by (simp add: sha256_of_file_readable)
  have "\<forall>t \<in> set (os_walk_files (disk s1) dest).
      sha256_of_file (sha256 env) (disk s1) t default_chunk_size \<noteq> Some (sha256 env c)"
    using none f(1) by simp
  from scan_dest_none[OF this] l h1 show ?thesis by (simp add: is_duplicate_def)
qed

lemma dest_of_length: "dest_of env item = Some d \<Longrightarrow> length d = 2"
  by (auto simp: dest_of_def os_path_join_def CAMERAS_DIR_def split: option.splits)

lemma relocate_moves:
  assumes src: "lookup (disk s) (os_path_join CAMERAS_DIR item) = Some (File c True)"
    and none: "\<forall>t. is_under (os_path_join CAMERAS_DIR (sanitize_folder_name folder)) t \<and>
        os_path_isfile (disk s) t \<longrightarrow>
        sha256_of_file (sha256 env) (disk s) t default_chunk_size \<noteq> Some (sha256 env c)"
    and nd: "\<not> os_path_isdir (disk s)
        (os_path_join (os_path_join CAMERAS_DIR (sanitize_folder_name folder)) item)"
    and mf: "move_fault env (os_path_join CAMERAS_DIR item) = None"
    and nr: "raised (relocate env item folder s) = None"
  shows "moved (relocate env item folder s) = moved s @ [os_path_join CAMERAS_DIR item]"
proof -
  define src where "src = os_path_join CAMERAS_DIR item"
  define dest where "dest = os_path_join CAMERAS_DIR (sanitize_folder_name folder)"
  define s1 where "s1 = s\<lparr>scanned_cameras := List.insert folder (scanned_cameras s)\<rparr>"
  have ld: "length dest = 2" "length src = 2"
    by (simp_all add: dest_def src_def os_path_join_def CAMERAS_DIR_def)
  show ?thesis
  proof (cases "os_makedirs_exist_ok env dest (disk s1)")
    case (Inl e)
    then have "relocate env item folder s = s1\<lparr>raised := Some e\<rparr>"
      by (simp add: relocate_def Let_def s1_def dest_def)
    with nr show ?thesis by simp
  next
    case (Inr fsys)
    then have mk: "os_makedirs_exist_ok env dest (disk s) = Inr fsys" by (simp add: s1_def)
    note mke = makedirs_effect[OF mk]
    have dd: "lookup fsys dest = Some Dir" using mk by (rule makedirs_isdir)
    have fsrc: "lookup fsys src = Some (File c True)"
      using src by (auto simp: mke src_def)
    have other: "lookup fsys t = lookup (disk s) t" if "t \<noteq> dest" for t
      using that by (simp add: mke)
    have "\<forall>t \<in> set (os_walk_files (disk (s1\<lparr>disk := fsys\<rparr>)) dest).
      sha256_of_file (sha256 env) (disk (s1\<lparr>disk := fsys\<rparr>)) t default_chunk_size \<noteq> Some (sha256 env c)"
    proof
      fix t assume "t \<in> set (os_walk_files (disk (s1\<lparr>disk := fsys\<rparr>)) dest)"
      then have t: "is_under dest t" "os_path_isfile fsys t" by (simp_all add: os_walk_files_def)
      then have "t \<noteq> dest" by (auto simp: is_under_def)
      then have eq: "lookup fsys t = lookup (disk s) t" by (rule other)
      with t have "os_path_isfile (disk s) t" by (simp add: isfile_iff)
      with none t(1) have "sha256_of_file (sha256 env) (disk s) t default_chunk_size \<noteq> Some (sha256 env c)"
        by (simp add: dest_def)
      with sha256_of_file_cong[OF eq, of "sha256 env" default_chunk_size]
      show "sha256_of_file (sha256 env) (disk (s1\<lparr>disk := fsys\<rparr>)) t default_chunk_size \<noteq> Some (sha256 env c)"
        by simp
    qed
    moreover have "lookup (disk (s1\<lparr>disk := fsys\<rparr>)) src = Some (File c True)" using fsrc by simp
    ultimately have "\<not> fst (is_duplicate env dest src (s1\<lparr>disk := fsys\<rparr>))"
      by (intro is_duplicate_false)
    then obtain s2 where dup: "is_duplicate env dest src (s1\<lparr>disk := fsys\<rparr>) = (False, s2)"
      by (cases "is_duplicate env dest src (s1\<lparr>disk := fsys\<rparr>)") auto
    note df = is_duplicate_fields[OF dup]
    have d2: "disk s2 = fsys" "moved s2 = moved s" using df by (simp_all add: s1_def)
    have dn: "os_path_join dest item \<noteq> dest" by (simp add: os_path_join_def)
    have ndf: "\<not> os_path_isdir fsys (os_path_join dest item)"
      using nd other[OF dn] by (simp add: os_path_isdir_def dest_def)
    have "shutil_move env src (os_path_join dest item) fsys =
        (None, fs_write (os_path_join dest item) (File c True) (fs_remove src fsys))"
      using fsrc ndf dd mf
      by (simp add: shutil_move_def real_dst_def Let_def os_path_isdir_def os_path_join_def
          butlast_append src_def)
    then have "relocate env item folder s =
        log_add INFO (Movido item dest)
          (s2\<lparr>disk := fs_write (os_path_join dest item) (File c True) (fs_remove src fsys),
              moved := moved s2 @ [src]\<rparr>)"
      using Inr dup d2
      by (simp add: relocate_def Let_def s1_def[symmetric] dest_def[symmetric] src_def[symmetric])
    then show ?thesis using d2 by (simp add: log_add_def src_def)
  qed
qed

lemma classify_item_moves:
  assumes src: "lookup (disk s) (os_path_join CAMERAS_DIR item) = Some (File c True)"
    and ext: "lower (splitext_ext item) \<in> set PHOTO_EXTENSIONS"
    and dest: "dest_of env item = Some D"
    and none: "\<forall>t. is_under D t \<and> os_path_isfile (disk s) t \<longrightarrow>
        sha256_of_file (sha256 env) (disk s) t default_chunk_size \<noteq> Some (sha256 env c)"
    and nd: "\<not> os_path_isdir (disk s) (os_path_join D item)"
    and mf: "move_fault env (os_path_join CAMERAS_DIR item) = None"
    and nr: "raised (classify_item env item s) = None"
  shows "moved (classify_item env item s) = moved s @ [os_path_join CAMERAS_DIR item]"
proof -
  from dest obtain model folder where
    m: "exif_model env (os_path_join CAMERAS_DIR item) = Some model"
       "map_of MODEL_TO_FOLDER model = Some folder"
       "D = os_path_join CAMERAS_DIR (sanitize_folder_name folder)"
    by (auto simp: dest_of_def split: option.splits)
  have isf: "os_path_isfile (disk s) (os_path_join CAMERAS_DIR item)"
    using src by (simp add: os_path_isfile_def)
  have r: "classify_item env item s =
      relocate env item folder (s\<lparr>processed_count := processed_count s + 1\<rparr>)"
    using isf ext m(1,2) by (rule classify_item_relocates)
  have "moved (relocate env item folder (s\<lparr>processed_count := processed_count s + 1\<rparr>)) =
      moved (s\<lparr>processed_count := processed_count s + 1\<rparr>) @ [os_path_join CAMERAS_DIR item]"
    using src none nd mf nr[unfolded r] unfolding m(3)
    by (intro relocate_moves[where c = c]) simp_all
  then show ?thesis unfolding r by simp
qed

lemma under_inv_initial: "under_inv env fs0 (initial_state fs0)"
  by (simp add: under_inv_def initial_state_def)

lemma moved_step:
  "set (moved s) \<subseteq> set (moved (classify_item env item s)) \<and>
   set (moved (classify_item env item s)) \<subseteq> insert (os_path_join CAMERAS_DIR item) (set (moved s))"
  using classify_item_frame[of env item s] by (auto simp: step_frame_def Let_def)

lemma under_inv_step:
  assumes inv: "model_inv env fs0 s" and u: "under_inv env fs0 s"
    and nl: "move_fault env (os_path_join CAMERAS_DIR item) = None \<or>
      move_fault env (os_path_join CAMERAS_DIR item) = Some None"
  shows "under_inv env fs0 (classify_item env item s)"
  unfolding under_inv_def
proof (intro allI impI)
  fix q :: path assume q: "3 \<le> length q"
  define s' where "s' = classify_item env item s"
  define src where "src = os_path_join CAMERAS_DIR item"
  have mono: "set (moved s) \<subseteq> set (moved s')" unfolding s'_def using moved_step by blast
  from classify_item_writes[OF nl q, of s]
  have alt: "lookup (disk s') q = lookup (disk s) q \<or>
     (moved s' = moved s @ [src] \<and> lookup (disk s') q = lookup (disk s) src \<and>
      (\<exists>d. dest_of env item = Some d \<and> is_under d q))"
    by (simp add: s'_def src_def)
  show "lookup (disk s') q = lookup fs0 q \<or>
        (\<exists>p \<in> set (moved s'). lookup (disk s') q = lookup fs0 p \<and>
           (\<exists>d. dest_of env (last p) = Some d \<and> is_under d q))"
  proof (rule disjE[OF alt])
    assume same: "lookup (disk s') q = lookup (disk s) q"
    from u q have "lookup (disk s) q = lookup fs0 q \<or>
        (\<exists>p \<in> set (moved s). lookup (disk s) q = lookup fs0 p \<and>
           (\<exists>d. dest_of env (last p) = Some d \<and> is_under d q))"
      by (simp add: under_inv_def)
    with same mono show ?thesis by auto
  next
    assume mv: "moved s' = moved s @ [src] \<and> lookup (disk s') q = lookup (disk s) src \<and>
      (\<exists>d. dest_of env item = Some d \<and> is_under d q)"
    have fr: "step_frame env item s s'" unfolding s'_def by (rule classify_item_frame)
    with mv have isf: "os_path_isfile (disk s) src"
      by (auto simp: step_frame_def Let_def src_def)
    have nm: "src \<notin> set (moved s)"
    proof
      assume "src \<in> set (moved s)"
      with inv have "lookup (disk s) src = None" unfolding model_inv_def by blast
      with isf show False by (simp add: isfile_iff)
    qed
    have l2: "length src = 2" "last src = item" using src_shape by (simp_all add: src_def)
    from inv isf l2 have "os_path_isfile fs0 src" unfolding model_inv_def by blast
    with inv nm l2 have "lookup (disk s) src = lookup fs0 src" unfolding model_inv_def by blast
    with mv l2 have "src \<in> set (moved s') \<and> lookup (disk s') q = lookup fs0 src \<and>
        (\<exists>d. dest_of env (last src) = Some d \<and> is_under d q)"
      by simp
    then show ?thesis by blast
  qed
qed

lemma pre_loop:
  assumes "model_inv env fs0 s" and "under_inv env fs0 s"
    and "set (moved s) \<subseteq> os_path_join CAMERAS_DIR ` A"
    and "\<forall>x \<in> set xs. move_fault env (os_path_join CAMERAS_DIR x) = None \<or>
      move_fault env (os_path_join CAMERAS_DIR x) = Some None"
  shows "under_inv env fs0 (classify_loop env xs s) \<and>
     set (moved (classify_loop env xs s)) \<subseteq> os_path_join CAMERAS_DIR ` (A \<union> set xs)"
  using assms
proof (induction xs arbitrary: s A)
  case Nil
  then show ?case by simp
next
  case (Cons x xs)
  define s1 where "s1 = classify_item env x s"
  have inv1: "model_inv env fs0 s1"
    unfolding s1_def using Cons.prems(1) classify_item_frame by (rule model_inv_step)
  have u1: "under_inv env fs0 s1"
    unfolding s1_def using Cons.prems(1,2,4) by (intro under_inv_step) simp_all
  have m1: "set (moved s1) \<subseteq> os_path_join CAMERAS_DIR ` (insert x A)"
    unfolding s1_def using moved_step[of s env x] Cons.prems(3) by auto
  show ?case
  proof (cases "raised s1 \<noteq> None")
    case True
    then have "classify_loop env (x # xs) s = s1" by (simp add: s1_def Let_def)
    with u1 m1 show ?thesis by auto
  next
    case False
    then have l: "classify_loop env (x # xs) s = classify_loop env xs s1" by (simp add: s1_def Let_def)
    from Cons.prems(4) have "\<forall>x \<in> set xs. move_fault env (os_path_join CAMERAS_DIR x) = None \<or>
      move_fault env (os_path_join CAMERAS_DIR x) = Some None" by simp
    from Cons.IH[OF inv1 u1 m1 this] show ?thesis unfolding l by auto
  qed
qed

lemma classify_loop_append:
  "raised (classify_loop env (xs @ ys) s) = None \<Longrightarrow>
   classify_loop env (xs @ ys) s = classify_loop env ys (classify_loop env xs s)"
proof (induction xs arbitrary: s)
  case Nil
  then show ?case by simp
next
  case (Cons x xs)
  define s1 where "s1 = classify_item env x s"
  have nr: "raised s1 = None"
  proof (rule ccontr)
    assume a: "raised s1 \<noteq> None"
    then have "classify_loop env ((x # xs) @ ys) s = s1" by (simp add: s1_def Let_def)
    with Cons.prems a show False by simp
  qed
  then have "classify_loop env ((x # xs) @ ys) s = classify_loop env (xs @ ys) s1"
    and "classify_loop env (x # xs) s = classify_loop env xs s1"
    by (simp_all add: s1_def Let_def)
  with Cons.IH[of s1] Cons.prems show ?case by simp
qed

lemma first_listed_moved:
  assumes root: "os_path_isdir fsys CAMERAS_DIR"
    and listing: "os_listdir fsys CAMERAS_DIR = pre @ item # post" and fst: "item \<notin> set pre"
    and src: "lookup fsys (os_path_join CAMERAS_DIR item) = Some (File c True)"
    and ext: "lower (splitext_ext item) \<in> set PHOTO_EXTENSIONS"
    and dest: "dest_of env item = Some D"
    and first: "\<forall>x \<in> set pre. dest_of env x = Some D \<longrightarrow>
        sha256_of_file (sha256 env) fsys (os_path_join CAMERAS_DIR x) default_chunk_size \<noteq>
          Some (sha256 env c)"
    and fresh: "\<forall>t \<in> set (os_walk_files fsys D).
        sha256_of_file (sha256 env) fsys t default_chunk_size \<noteq> Some (sha256 env c)"
    and nd: "\<not> os_path_isdir fsys (os_path_join D item)"
    and mf: "move_fault env (os_path_join CAMERAS_DIR item) = None"
    and clean: "\<forall>x \<in> set pre. move_fault env (os_path_join CAMERAS_DIR x) = None \<or>
        move_fault env (os_path_join CAMERAS_DIR x) = Some None"
    and nr: "raised (classify_images env fsys) = None"
  shows "os_path_join CAMERAS_DIR item \<in> set (moved (classify_images env fsys))"
proof -
  define s0 where "s0 = initial_state fsys"
  define sp where "sp = classify_loop env pre s0"
  define s1 where "s1 = classify_item env item sp"
  define srcp where "srcp = os_path_join CAMERAS_DIR item"
  have run: "classify_images env fsys = classify_loop env (pre @ item # post) s0"
    using root listing by (simp add: classify_images_def s0_def)
  with nr have nr': "raised (classify_loop env (pre @ item # post) s0) = None" by simp
  from classify_loop_append[OF nr'] have split: "classify_loop env (pre @ item # post) s0 =
      classify_loop env (item # post) sp" by (simp add: sp_def)
  have nr1: "raised s1 = None"
  proof (rule ccontr)
    assume a: "raised s1 \<noteq> None"
    then have "classify_loop env (item # post) sp = s1" by (simp add: s1_def Let_def)
    with nr' split a show False by simp
  qed
  then have fin: "classify_images env fsys = classify_loop env post s1"
    unfolding run split by (simp add: s1_def Let_def)
  have inv0: "model_inv env fsys s0" unfolding s0_def by (rule model_inv_initial)
  have invp: "model_inv env fsys sp" unfolding sp_def using inv0 by (rule model_inv_loop)
  have "set (moved s0) \<subseteq> os_path_join CAMERAS_DIR ` {}" by (simp add: s0_def initial_state_def)
  from pre_loop[OF inv0 _ this clean] under_inv_initial[of env fsys]
  have up: "under_inv env fsys sp" and mp: "set (moved sp) \<subseteq> os_path_join CAMERAS_DIR ` set pre"
    by (simp_all add: sp_def s0_def)
  have l2: "length srcp = 2" "last srcp = item" using src_shape by (simp_all add: srcp_def)
  have lD: "length D = 2" using dest by (rule dest_of_length)
  have nm: "srcp \<notin> set (moved sp)"
  proof
    assume "srcp \<in> set (moved sp)"
    with mp obtain x where "x \<in> set pre" "srcp = os_path_join CAMERAS_DIR x" by auto
    with fst show False by (simp add: srcp_def os_path_join_def)
  qed
  have isf0: "os_path_isfile fsys srcp" using src by (simp add: os_path_isfile_def srcp_def)
  with invp nm l2 have "lookup (disk sp) srcp = lookup fsys srcp" unfolding model_inv_def by blast
  with src have srcsp: "lookup (disk sp) (os_path_join CAMERAS_DIR item) = Some (File c True)"
    by (simp add: srcp_def)
  have cases_under: "lookup (disk sp) t = lookup fsys t \<or>
      (\<exists>x \<in> set pre. lookup (disk sp) t = lookup fsys (os_path_join CAMERAS_DIR x) \<and>
         os_path_isfile fsys (os_path_join CAMERAS_DIR x) \<and> dest_of env x = Some D)"
    if t: "is_under D t" for t
  proof -
    from t lD have lt: "3 \<le> length t" by (simp add: is_under_def)
    from up lt have "lookup (disk sp) t = lookup fsys t \<or>
        (\<exists>p \<in> set (moved sp). lookup (disk sp) t = lookup fsys p \<and>
           (\<exists>d. dest_of env (last p) = Some d \<and> is_under d t))"
      by (simp add: under_inv_def)
    then show ?thesis
    proof
      assume "lookup (disk sp) t = lookup fsys t"
      then show ?thesis by simp
    next
      assume "\<exists>p \<in> set (moved sp). lookup (disk sp) t = lookup fsys p \<and>
           (\<exists>d. dest_of env (last p) = Some d \<and> is_under d t)"
      then obtain p d where p: "p \<in> set (moved sp)" "lookup (disk sp) t = lookup fsys p"
        "dest_of env (last p) = Some d" "is_under d t" by blast
      from mp p(1) obtain x where x: "x \<in> set pre" "p = os_path_join CAMERAS_DIR x" by auto
      have lx: "last p = x" using src_shape x(2) by simp
      have "length d = 2" using p(3) by (rule dest_of_length)
      with p(4) t lD have "d = D" by (auto simp: is_under_def)
      moreover from invp p(1) have "os_path_isfile fsys p" unfolding model_inv_def by blast
      ultimately show ?thesis using x p lx by auto
    qed
  qed
  have none: "\<forall>t. is_under D t \<and> os_path_isfile (disk sp) t \<longrightarrow>
        sha256_of_file (sha256 env) (disk sp) t default_chunk_size \<noteq> Some (sha256 env c)"
  proof (intro allI impI)
    fix t assume t: "is_under D t \<and> os_path_isfile (disk sp) t"
    then have tu: "is_under D t" and tf: "os_path_isfile (disk sp) t" by simp_all
    show "sha256_of_file (sha256 env) (disk sp) t default_chunk_size \<noteq> Some (sha256 env c)"
    proof (rule disjE[OF cases_under[OF tu]])
      assume eq: "lookup (disk sp) t = lookup fsys t"
      with tf have "os_path_isfile fsys t" by (simp add: isfile_iff)
      moreover then have "t \<in> set (map fst fsys)" using lookup_in_keys by (auto simp: isfile_iff)
      ultimately have "t \<in> set (os_walk_files fsys D)"
        using tu by (simp add: os_walk_files_def)
      with fresh have "sha256_of_file (sha256 env) fsys t default_chunk_size \<noteq> Some (sha256 env c)"
        by blast
      with sha256_of_file_cong[OF eq, of "sha256 env" default_chunk_size] show ?thesis by simp
    next
      assume "\<exists>x \<in> set pre. lookup (disk sp) t = lookup fsys (os_path_join CAMERAS_DIR x) \<and>
         os_path_isfile fsys (os_path_join CAMERAS_DIR x) \<and> dest_of env x = Some D"
      then obtain x where x: "x \<in> set pre"
        and eq: "lookup (disk sp) t = lookup fsys (os_path_join CAMERAS_DIR x)"
        and d: "dest_of env x = Some D" by blast
      with first have "sha256_of_file (sha256 env) fsys (os_path_join CAMERAS_DIR x) default_chunk_size \<noteq>
          Some (sha256 env c)" by blast
      with sha256_of_file_cong[OF eq, of "sha256 env" default_chunk_size] show ?thesis by simp
    qed
  qed
  have ndsp: "\<not> os_path_isdir (disk sp) (os_path_join D item)"
  proof -
    have "is_under D (os_path_join D item)" by (simp add: is_under_def os_path_join_def)
    from cases_under[OF this] nd show ?thesis
      by (auto simp: os_path_isdir_def isfile_iff)
  qed
  have "moved s1 = moved sp @ [os_path_join CAMERAS_DIR item]"
    unfolding s1_def using srcsp ext dest none ndsp mf nr1[unfolded s1_def]
    by (rule classify_item_moves)
  then have "os_path_join CAMERAS_DIR item \<in> set (moved s1)" by simp
  with classify_loop_mono[of s1 env post] show ?thesis unfolding fin by auto
qed

lemma moved_group:
  "(\<forall>p \<in> set (moved (classify_images env fsys)).
      \<forall>q \<in> set (moved (classify_images env fsys)).
        p \<noteq> q \<and> dest_of env (last p) = dest_of env (last q) \<longrightarrow> lookup fsys p \<noteq> lookup fsys q) \<and>
   (\<forall>p \<in> set (moved (classify_images env fsys)).
      \<forall>item \<in> set (os_listdir fsys CAMERAS_DIR).
        os_path_join CAMERAS_DIR item \<noteq> p \<and>
        lookup fsys (os_path_join CAMERAS_DIR item) = lookup fsys p \<and>
        dest_of env item = dest_of env (last p) \<longrightarrow>
          os_path_join CAMERAS_DIR item \<notin> set (moved (classify_images env fsys)) \<and>
          lookup (disk (classify_images env fsys)) (os_path_join CAMERAS_DIR item) = lookup fsys p \<and>
          (raised (classify_images env fsys) = None \<and>
           lower (splitext_ext item) \<in> set PHOTO_EXTENSIONS \<longrightarrow>
             os_path_join CAMERAS_DIR item \<in> set (duplicates (classify_images env fsys))))"
proof -
  define s where "s = classify_images env fsys"
  have inv: "model_inv env fsys s" unfolding s_def by (rule model_inv_run)
  have u: "at_most_one env fsys s" unfolding s_def by (rule at_most_one_run)
  have one: "\<forall>p \<in> set (moved s). \<forall>q \<in> set (moved s).
        p \<noteq> q \<and> dest_of env (last p) = dest_of env (last q) \<longrightarrow> lookup fsys p \<noteq> lookup fsys q"
    using u by (simp add: at_most_one_def)
  have others: "os_path_join CAMERAS_DIR item \<notin> set (moved s) \<and>
          lookup (disk s) (os_path_join CAMERAS_DIR item) = lookup fsys p \<and>
          (raised s = None \<and> lower (splitext_ext item) \<in> set PHOTO_EXTENSIONS \<longrightarrow>
             os_path_join CAMERAS_DIR item \<in> set (duplicates s))"
    if p: "p \<in> set (moved s)" and item: "item \<in> set (os_listdir fsys CAMERAS_DIR)"
      and h: "os_path_join CAMERAS_DIR item \<noteq> p \<and>
        lookup fsys (os_path_join CAMERAS_DIR item) = lookup fsys p \<and>
        dest_of env item = dest_of env (last p)" for p item
  proof -
    define q where "q = os_path_join CAMERAS_DIR item"
    have lq: "last q = item" "length q = 2" using src_shape by (simp_all add: q_def)
    from inv p obtain ip t where
      a: "os_path_isfile fsys p" "p = os_path_join CAMERAS_DIR ip" "t \<in> set (destinations env ip)"
      unfolding model_inv_def by blast
    have isq: "os_path_isfile fsys q" using a(1) h by (simp add: isfile_iff q_def)
    have nm: "q \<notin> set (moved s)"
    proof
      assume "q \<in> set (moved s)"
      with one p h lq(1) show False unfolding q_def by metis
    qed
    with inv isq lq(2) have keep: "lookup (disk s) q = lookup fsys q"
      unfolding model_inv_def by blast
    have root: "os_path_isdir fsys CAMERAS_DIR"
    proof (rule ccontr)
      assume "\<not> os_path_isdir fsys CAMERAS_DIR"
      then have "moved s = []"
        by (simp add: s_def classify_images_def log_add_def initial_state_def)
      with p show False by simp
    qed
    have dup: "q \<in> set (duplicates s)"
      if r: "raised s = None" and e: "lower (splitext_ext item) \<in> set PHOTO_EXTENSIONS"
    proof -
      have lp: "last p = ip" using src_shape a(2) by simp
      from destinations_under[OF a(3)] h lp have dn: "dest_of env item \<noteq> None" by auto
      have s: "s = classify_loop env (os_listdir fsys CAMERAS_DIR) (initial_state fsys)"
        using root by (simp add: s_def classify_images_def)
      have "q \<in> set (moved s) \<union> set (duplicates s)"
        unfolding s q_def using model_inv_initial r[unfolded s] item isq[unfolded q_def] e dn
        by (rule classify_loop_processed)
      with nm show ?thesis by simp
    qed
    show ?thesis using nm keep h dup unfolding q_def by simp
  qed
  show ?thesis unfolding s_def[symmetric]
  proof (intro conjI)
    show "\<forall>p \<in> set (moved s). \<forall>q \<in> set (moved s).
        p \<noteq> q \<and> dest_of env (last p) = dest_of env (last q) \<longrightarrow> lookup fsys p \<noteq> lookup fsys q"
      by (rule one)
    show "\<forall>p \<in> set (moved s). \<forall>item \<in> set (os_listdir fsys CAMERAS_DIR).
        os_path_join CAMERAS_DIR item \<noteq> p \<and>
        lookup fsys (os_path_join CAMERAS_DIR item) = lookup fsys p \<and>
        dest_of env item = dest_of env (last p) \<longrightarrow>
          os_path_join CAMERAS_DIR item \<notin> set (moved s) \<and>
          lookup (disk s) (os_path_join CAMERAS_DIR item) = lookup fsys p \<and>
          (raised s = None \<and> lower (splitext_ext item) \<in> set PHOTO_EXTENSIONS \<longrightarrow>
             os_path_join CAMERAS_DIR item \<in> set (duplicates s))"
      by (intro ballI impI) (rule others)
  qed
qed

lemma trio_step1:
  "classify_item (wb30f_env H) ''x.jpg'' (initial_state fs_trio) =
     \<lparr>disk = [([''CAMERAS''], Dir), ([''CAMERAS'', ''b.jpg''], File [1, 2] True), ([''CAMERAS'', ''a.jpg''], File [1, 2] True),
              ([''CAMERAS'', ''Samsung WB30F''], Dir), ([''CAMERAS'', ''Samsung WB30F'', ''x.jpg''], File [9] True)],
      unmapped = [], duplicates = [], moved = [[''CAMERAS'', ''x.jpg'']],
      scanned_cameras = [''Samsung WB30F''], processed_count = 1, folders_report = [],
      logged = [(INFO, Movido ''x.jpg'' [''CAMERAS'', ''Samsung WB30F''])],
      hashed = [[''CAMERAS'', ''x.jpg'']], raised = None\<rparr>"
  by (simp add: fs_trio_def wb30f_env_def model_eval acc_eval fs_eval text_eval fingerprint_content
      default_chunk_size_def)

lemma trio_step2:
  "H [9] \<noteq> H [1, 2] \<Longrightarrow>
   classify_item (wb30f_env H) ''b.jpg''
     (\<lparr>disk = [([''CAMERAS''], Dir), ([''CAMERAS'', ''b.jpg''], File [1, 2] True), ([''CAMERAS'', ''a.jpg''], File [1, 2] True),
              ([''CAMERAS'', ''Samsung WB30F''], Dir), ([''CAMERAS'', ''Samsung WB30F'', ''x.jpg''], File [9] True)],
      unmapped = [], duplicates = [], moved = [[''CAMERAS'', ''x.jpg'']],
      scanned_cameras = [''Samsung WB30F''], processed_count = 1, folders_report = [],
      logged = [(INFO, Movido ''x.jpg'' [''CAMERAS'', ''Samsung WB30F''])],
      hashed = [[''CAMERAS'', ''x.jpg'']], raised = None\<rparr>) =
     \<lparr>disk = [([''CAMERAS''], Dir), ([''CAMERAS'', ''a.jpg''], File [1, 2] True),
              ([''CAMERAS'', ''Samsung WB30F''], Dir), ([''CAMERAS'', ''Samsung WB30F'', ''x.jpg''], File [9] True), ([''CAMERAS'', ''Samsung WB30F'', ''b.jpg''], File [1, 2] True)],
      unmapped = [], duplicates = [], moved = [[''CAMERAS'', ''x.jpg''], [''CAMERAS'', ''b.jpg'']],
      scanned_cameras = [''Samsung WB30F''], processed_count = 2, folders_report = [],
      logged = [(INFO, Movido ''x.jpg'' [''CAMERAS'', ''Samsung WB30F'']),
                (INFO, Movido ''b.jpg'' [''CAMERAS'', ''Samsung WB30F''])],
      hashed = [[''CAMERAS'', ''x.jpg''], [''CAMERAS'', ''b.jpg''], [''CAMERAS'', ''Samsung WB30F'', ''x.jpg'']], raised = None\<rparr>"
  by (simp add: fs_trio_def wb30f_env_def model_eval acc_eval fs_eval text_eval fingerprint_content
      default_chunk_size_def)

lemma trio_step3:
  "H [9] \<noteq> H [1, 2] \<Longrightarrow>
   classify_item (wb30f_env H) ''a.jpg''
     (\<lparr>disk = [([''CAMERAS''], Dir), ([''CAMERAS'', ''a.jpg''], File [1, 2] True),
              ([''CAMERAS'', ''Samsung WB30F''], Dir), ([''CAMERAS'', ''Samsung WB30F'', ''x.jpg''], File [9] True), ([''CAMERAS'', ''Samsung WB30F'', ''b.jpg''], File [1, 2] True)],
      unmapped = [], duplicates = [], moved = [[''CAMERAS'', ''x.jpg''], [''CAMERAS'', ''b.jpg'']],
      scanned_cameras = [''Samsung WB30F''], processed_count = 2, folders_report = [],
      logged = [(INFO, Movido ''x.jpg'' [''CAMERAS'', ''Samsung WB30F'']),
                (INFO, Movido ''b.jpg'' [''CAMERAS'', ''Samsung WB30F''])],
      hashed = [[''CAMERAS'', ''x.jpg''], [''CAMERAS'', ''b.jpg''], [''CAMERAS'', ''Samsung WB30F'', ''x.jpg'']], raised = None\<rparr>) =
     \<lparr>disk = [([''CAMERAS''], Dir), ([''CAMERAS'', ''a.jpg''], File [1, 2] True),
              ([''CAMERAS'', ''Samsung WB30F''], Dir), ([''CAMERAS'', ''Samsung WB30F'', ''x.jpg''], File [9] True), ([''CAMERAS'', ''Samsung WB30F'', ''b.jpg''], File [1, 2] True)],
      unmapped = [], duplicates = [[''CAMERAS'', ''a.jpg'']], moved = [[''CAMERAS'', ''x.jpg''], [''CAMERAS'', ''b.jpg'']],
      scanned_cameras = [''Samsung WB30F''], processed_count = 3, folders_report = [],
      logged = [(INFO, Movido ''x.jpg'' [''CAMERAS'', ''Samsung WB30F'']),
                (INFO, Movido ''b.jpg'' [''CAMERAS'', ''Samsung WB30F'']),
                (WARNING, Duplicado [''CAMERAS'', ''a.jpg''])],
      hashed = [[''CAMERAS'', ''x.jpg''], [''CAMERAS'', ''b.jpg''], [''CAMERAS'', ''Samsung WB30F'', ''x.jpg''],
                [''CAMERAS'', ''a.jpg''], [''CAMERAS'', ''Samsung WB30F'', ''x.jpg''], [''CAMERAS'', ''Samsung WB30F'', ''b.jpg'']], raised = None\<rparr>"
  by (simp add: fs_trio_def wb30f_env_def model_eval acc_eval fs_eval text_eval fingerprint_content
      default_chunk_size_def)

lemma run_fs_trio:
  "H [9] \<noteq> H [1, 2] \<Longrightarrow> classify_images (wb30f_env H) fs_trio =
     \<lparr>disk = [([''CAMERAS''], Dir), ([''CAMERAS'', ''a.jpg''], File [1, 2] True),
              ([''CAMERAS'', ''Samsung WB30F''], Dir), ([''CAMERAS'', ''Samsung WB30F'', ''x.jpg''], File [9] True), ([''CAMERAS'', ''Samsung WB30F'', ''b.jpg''], File [1, 2] True)],
      unmapped = [], duplicates = [[''CAMERAS'', ''a.jpg'']], moved = [[''CAMERAS'', ''x.jpg''], [''CAMERAS'', ''b.jpg'']],
      scanned_cameras = [''Samsung WB30F''], processed_count = 3, folders_report = [],
      logged = [(INFO, Movido ''x.jpg'' [''CAMERAS'', ''Samsung WB30F'']),
                (INFO, Movido ''b.jpg'' [''CAMERAS'', ''Samsung WB30F'']),
                (WARNING, Duplicado [''CAMERAS'', ''a.jpg''])],
      hashed = [[''CAMERAS'', ''x.jpg''], [''CAMERAS'', ''b.jpg''], [''CAMERAS'', ''Samsung WB30F'', ''x.jpg''],
                [''CAMERAS'', ''a.jpg''], [''CAMERAS'', ''Samsung WB30F'', ''x.jpg''], [''CAMERAS'', ''Samsung WB30F'', ''b.jpg'']], raised = None\<rparr>"
proof -
  assume h: "H [9] \<noteq> H [1, 2]"
  define S1 where "S1 = \<lparr>disk = [([''CAMERAS''], Dir), ([''CAMERAS'', ''b.jpg''], File [1, 2] True), ([''CAMERAS'', ''a.jpg''], File [1, 2] True),
                ([''CAMERAS'', ''Samsung WB30F''], Dir), ([''CAMERAS'', ''Samsung WB30F'', ''x.jpg''], File [9] True)],
        unmapped = [], duplicates = [], moved = [[''CAMERAS'', ''x.jpg'']],
        scanned_cameras = [''Samsung WB30F''], processed_count = 1, folders_report = [],
        logged = [(INFO, Movido ''x.jpg'' [''CAMERAS'', ''Samsung WB30F''])],
        hashed = [[''CAMERAS'', ''x.jpg'']], raised = None\<rparr>"
  define S2 where "S2 = \<lparr>disk = [([''CAMERAS''], Dir), ([''CAMERAS'', ''a.jpg''], File [1, 2] True),
                ([''CAMERAS'', ''Samsung WB30F''], Dir), ([''CAMERAS'', ''Samsung WB30F'', ''x.jpg''], File [9] True), ([''CAMERAS'', ''Samsung WB30F'', ''b.jpg''], File [1, 2] True)],
        unmapped = [], duplicates = [], moved = [[''CAMERAS'', ''x.jpg''], [''CAMERAS'', ''b.jpg'']],
        scanned_cameras = [''Samsung WB30F''], processed_count = 2, folders_report = [],
        logged = [(INFO, Movido ''x.jpg'' [''CAMERAS'', ''Samsung WB30F'']),
                  (INFO, Movido ''b.jpg'' [''CAMERAS'', ''Samsung WB30F''])],
        hashed = [[''CAMERAS'', ''x.jpg''], [''CAMERAS'', ''b.jpg''], [''CAMERAS'', ''Samsung WB30F'', ''x.jpg'']], raised = None\<rparr>"
  define S3 where "S3 = \<lparr>disk = [([''CAMERAS''], Dir), ([''CAMERAS'', ''a.jpg''], File [1, 2] True),
                ([''CAMERAS'', ''Samsung WB30F''], Dir), ([''CAMERAS'', ''Samsung WB30F'', ''x.jpg''], File [9] True), ([''CAMERAS'', ''Samsung WB30F'', ''b.jpg''], File [1, 2] True)],
        unmapped = [], duplicates = [[''CAMERAS'', ''a.jpg'']], moved = [[''CAMERAS'', ''x.jpg''], [''CAMERAS'', ''b.jpg'']],
        scanned_cameras = [''Samsung WB30F''], processed_count = 3, folders_report = [],
        logged = [(INFO, Movido ''x.jpg'' [''CAMERAS'', ''Samsung WB30F'']),
                  (INFO, Movido ''b.jpg'' [''CAMERAS'', ''Samsung WB30F'']),
                  (WARNING, Duplicado [''CAMERAS'', ''a.jpg''])],
        hashed = [[''CAMERAS'', ''x.jpg''], [''CAMERAS'', ''b.jpg''], [''CAMERAS'', ''Samsung WB30F'', ''x.jpg''],
                  [''CAMERAS'', ''a.jpg''], [''CAMERAS'', ''Samsung WB30F'', ''x.jpg''], [''CAMERAS'', ''Samsung WB30F'', ''b.jpg'']], raised = None\<rparr>"
  have 1: "classify_item (wb30f_env H) ''x.jpg'' (initial_state fs_trio) = S1"
    unfolding S1_def by (rule trio_step1)
  have 2: "classify_item (wb30f_env H) ''b.jpg'' S1 = S2"
    unfolding S1_def S2_def using h by (rule trio_step2)
  have 3: "classify_item (wb30f_env H) ''a.jpg'' S2 = S3"
    unfolding S2_def S3_def using h by (rule trio_step3)
  have r: "raised S1 = None" "raised S2 = None" "raised S3 = None"
    by (simp_all add: S1_def S2_def S3_def)
  have l: "os_listdir fs_trio CAMERAS_DIR = [''x.jpg'', ''b.jpg'', ''a.jpg'']"
    and d: "os_path_isdir fs_trio CAMERAS_DIR"
    by (simp_all add: fs_trio_def fs_eval CAMERAS_DIR_def)
  have "classify_images (wb30f_env H) fs_trio = S3"
    using d by (simp add: classify_images_def l Let_def 1 2 3 r)
  then show ?thesis by (simp only: S3_def)
qed

text \<open>
  Claim C7, amended: of the files of the root that hold the same content and go to the
  same model folder, \<^verbatim>\<open>classify_images\<close> moves exactly one, the first that \<^verbatim>\<open>os.listdir\<close>
  yields, and reports the others as duplicates. In full: no two files in \<^verbatim>\<open>moved\<close> have
  the same content and the same destination folder; every other listed entry with the
  content and the destination folder of a moved file is not moved and stays where it
  was, and it is recorded in \<^verbatim>\<open>duplicates\<close> when it has an allowed extension and the run
  ends without an exception; and a readable photo \<open>head\<close> of the listing is moved when
  no entry listed before it goes to the same folder with the same fingerprint, no file
  below that folder has this fingerprint at the start, the name \<open>head\<close> is not a
  directory there, the operating system does not refuse the move of \<open>head\<close>, no failed
  move of an earlier entry leaves a partial copy, and the run ends without an exception.
  The order of the paths plays no part.
\<close>

theorem one_move_per_content:
  "(\<forall>p \<in> set (moved (classify_images env fsys)).
      \<forall>q \<in> set (moved (classify_images env fsys)).
        p \<noteq> q \<and> dest_of env (last p) = dest_of env (last q) \<longrightarrow> lookup fsys p \<noteq> lookup fsys q) \<and>
   (\<forall>p \<in> set (moved (classify_images env fsys)).
      \<forall>item \<in> set (os_listdir fsys CAMERAS_DIR).
        os_path_join CAMERAS_DIR item \<noteq> p \<and>
        lookup fsys (os_path_join CAMERAS_DIR item) = lookup fsys p \<and>
        dest_of env item = dest_of env (last p) \<longrightarrow>
          os_path_join CAMERAS_DIR item \<notin> set (moved (classify_images env fsys)) \<and>
          lookup (disk (classify_images env fsys)) (os_path_join CAMERAS_DIR item) = lookup fsys p \<and>
          (raised (classify_images env fsys) = None \<and>
           lower (splitext_ext item) \<in> set PHOTO_EXTENSIONS \<longrightarrow>
             os_path_join CAMERAS_DIR item \<in> set (duplicates (classify_images env fsys)))) \<and>
   (os_path_isdir fsys CAMERAS_DIR \<and>
    os_listdir fsys CAMERAS_DIR = pre @ head # post \<and> head \<notin> set pre \<and>
    lookup fsys (os_path_join CAMERAS_DIR head) = Some (File c True) \<and>
    lower (splitext_ext head) \<in> set PHOTO_EXTENSIONS \<and>
    dest_of env head = Some D \<and>
    (\<forall>x \<in> set pre. dest_of env x = Some D \<longrightarrow>
       sha256_of_file (sha256 env) fsys (os_path_join CAMERAS_DIR x) default_chunk_size \<noteq>
         Some (sha256 env c)) \<and>
    (\<forall>t \<in> set (os_walk_files fsys D).
       sha256_of_file (sha256 env) fsys t default_chunk_size \<noteq> Some (sha256 env c)) \<and>
    \<not> os_path_isdir fsys (os_path_join D head) \<and>
    move_fault env (os_path_join CAMERAS_DIR head) = None \<and>
    (\<forall>x \<in> set pre. move_fault env (os_path_join CAMERAS_DIR x) = None \<or>
       move_fault env (os_path_join CAMERAS_DIR x) = Some None) \<and>
    raised (classify_images env fsys) = None \<longrightarrow>
      os_path_join CAMERAS_DIR head \<in> set (moved (classify_images env fsys)))"
proof (intro conjI impI)
  show "\<forall>p \<in> set (moved (classify_images env fsys)).
      \<forall>q \<in> set (moved (classify_images env fsys)).
        p \<noteq> q \<and> dest_of env (last p) = dest_of env (last q) \<longrightarrow> lookup fsys p \<noteq> lookup fsys q"
    using moved_group[of env fsys] by (rule conjunct1)
  show "\<forall>p \<in> set (moved (classify_images env fsys)).
      \<forall>item \<in> set (os_listdir fsys CAMERAS_DIR).
        os_path_join CAMERAS_DIR item \<noteq> p \<and>
        lookup fsys (os_path_join CAMERAS_DIR item) = lookup fsys p \<and>
        dest_of env item = dest_of env (last p) \<longrightarrow>
          os_path_join CAMERAS_DIR item \<notin> set (moved (classify_images env fsys)) \<and>
          lookup (disk (classify_images env fsys)) (os_path_join CAMERAS_DIR item) = lookup fsys p \<and>
          (raised (classify_images env fsys) = None \<and>
           lower (splitext_ext item) \<in> set PHOTO_EXTENSIONS \<longrightarrow>
             os_path_join CAMERAS_DIR item \<in> set (duplicates (classify_images env fsys)))"
    using moved_group[of env fsys] by (rule conjunct2)
next
  assume h: "os_path_isdir fsys CAMERAS_DIR \<and>
    os_listdir fsys CAMERAS_DIR = pre @ head # post \<and> head \<notin> set pre \<and>
    lookup fsys (os_path_join CAMERAS_DIR head) = Some (File c True) \<and>
    lower (splitext_ext head) \<in> set PHOTO_EXTENSIONS \<and>
    dest_of env head = Some D \<and>
    (\<forall>x \<in> set pre. dest_of env x = Some D \<longrightarrow>
       sha256_of_file (sha256 env) fsys (os_path_join CAMERAS_DIR x) default_chunk_size \<noteq>
         Some (sha256 env c)) \<and>
    (\<forall>t \<in> set (os_walk_files fsys D).
       sha256_of_file (sha256 env) fsys t default_chunk_size \<noteq> Some (sha256 env c)) \<and>
    \<not> os_path_isdir fsys (os_path_join D head) \<and>
    move_fault env (os_path_join CAMERAS_DIR head) = None \<and>
    (\<forall>x \<in> set pre. move_fault env (os_path_join CAMERAS_DIR x) = None \<or>
       move_fault env (os_path_join CAMERAS_DIR x) = Some None) \<and>
    raised (classify_images env fsys) = None"
  show "os_path_join CAMERAS_DIR head \<in> set (moved (classify_images env fsys))"
  proof (rule first_listed_moved[where pre = pre and post = post and c = c and D = D])
    show "os_path_isdir fsys CAMERAS_DIR" using h by simp
    show "os_listdir fsys CAMERAS_DIR = pre @ head # post" using h by simp
    show "head \<notin> set pre" using h by simp
    show "lookup fsys (os_path_join CAMERAS_DIR head) = Some (File c True)" using h by simp
    show "lower (splitext_ext head) \<in> set PHOTO_EXTENSIONS" using h by simp
    show "dest_of env head = Some D" using h by simp
    show "\<forall>x \<in> set pre. dest_of env x = Some D \<longrightarrow>
       sha256_of_file (sha256 env) fsys (os_path_join CAMERAS_DIR x) default_chunk_size \<noteq>
         Some (sha256 env c)" using h by simp
    show "\<forall>t \<in> set (os_walk_files fsys D).
       sha256_of_file (sha256 env) fsys t default_chunk_size \<noteq> Some (sha256 env c)" using h by simp
    show "\<not> os_path_isdir fsys (os_path_join D head)" using h by simp
    show "move_fault env (os_path_join CAMERAS_DIR head) = None" using h by simp
    show "\<forall>x \<in> set pre. move_fault env (os_path_join CAMERAS_DIR x) = None \<or>
       move_fault env (os_path_join CAMERAS_DIR x) = Some None" using h by simp
    show "raised (classify_images env fsys) = None" using h by simp
  qed
qed

theorem one_move_per_content_witness:
  "os_path_isdir fs_trio CAMERAS_DIR \<and>
   os_listdir fs_trio CAMERAS_DIR = [''x.jpg''] @ ''b.jpg'' # [''a.jpg''] \<and>
   lookup fs_trio [''CAMERAS'', ''b.jpg''] = Some (File [1, 2] True) \<and>
   lookup fs_trio [''CAMERAS'', ''a.jpg''] = lookup fs_trio [''CAMERAS'', ''b.jpg''] \<and>
   lower (splitext_ext ''b.jpg'') \<in> set PHOTO_EXTENSIONS \<and>
   lower (splitext_ext ''a.jpg'') \<in> set PHOTO_EXTENSIONS \<and>
   dest_of (wb30f_env byte_sum) ''b.jpg'' = Some [''CAMERAS'', ''Samsung WB30F''] \<and>
   dest_of (wb30f_env byte_sum) ''a.jpg'' = Some [''CAMERAS'', ''Samsung WB30F''] \<and>
   dest_of (wb30f_env byte_sum) ''x.jpg'' = Some [''CAMERAS'', ''Samsung WB30F''] \<and>
   sha256_of_file byte_sum fs_trio [''CAMERAS'', ''x.jpg''] default_chunk_size = Some 9 \<and>
   byte_sum [1, 2] = 3 \<and>
   os_walk_files fs_trio [''CAMERAS'', ''Samsung WB30F''] = [] \<and>
   \<not> os_path_isdir fs_trio [''CAMERAS'', ''Samsung WB30F'', ''b.jpg''] \<and>
   move_fault (wb30f_env byte_sum) [''CAMERAS'', ''b.jpg''] = None \<and>
   move_fault (wb30f_env byte_sum) [''CAMERAS'', ''x.jpg''] = None \<and>
   raised (classify_images (wb30f_env byte_sum) fs_trio) = None \<and>
   [''CAMERAS'', ''b.jpg''] \<in> set (moved (classify_images (wb30f_env byte_sum) fs_trio)) \<and>
   [''CAMERAS'', ''a.jpg''] \<notin> set (moved (classify_images (wb30f_env byte_sum) fs_trio)) \<and>
   [''CAMERAS'', ''a.jpg''] \<in> set (duplicates (classify_images (wb30f_env byte_sum) fs_trio)) \<and>
   lookup (disk (classify_images (wb30f_env byte_sum) fs_trio)) [''CAMERAS'', ''a.jpg''] =
     lookup fs_trio [''CAMERAS'', ''a.jpg'']"
proof -
  have h: "byte_sum [9] \<noteq> byte_sum [1, 2]" by (simp add: byte_sum_def)
  note run = run_fs_trio[OF h]
  show ?thesis
    using one_move_per_content[of "wb30f_env byte_sum" fs_trio "[''x.jpg'']" "''b.jpg''" "[''a.jpg'']"
        "[1, 2]" "[''CAMERAS'', ''Samsung WB30F'']"]
    apply (simp only: run)
    apply (simp add: fs_trio_def fs_eval text_eval model_eval dest_of_def wb30f_env_def
        byte_sum_def sha256_of_file_def fingerprint_content default_chunk_size_def)
    done
qed

subsection \<open>A second run of date\_sort moves nothing\<close>


























subsection \<open>The inner loop\<close>






subsection \<open>The outer loop\<close>

















end
